theory Spec2Isabelle
  imports Complex_Main "HOL-Library.Char_ord" "HOL-Library.List_Lexorder" "HOL-Library.Sublist"
begin

section \<open>JSON-like values and JavaScript objects\<close>

text \<open>
  The workflow execution context stores and inspects plain JSON-like data. A number is an
  IEEE double; no function of the context looks inside one, so a finite double is kept as the
  rational it denotes. A string is a list of characters; the functions that look at letter
  case and at blanks are modelled for ASCII text (\<open>is_ascii\<close> below).
\<close>

datatype number = NaN | PosInfinity | NegInfinity | Finite rat

datatype json =
    JNull
  | JBool bool
  | JNum number
  | JStr string
  | JArr "json list"
  | JObj "(string \<times> json) list"

text \<open>
  An object is the list of its own properties in enumeration order (the order of
  \<^verbatim>\<open>Object.keys\<close>, \<^verbatim>\<open>Object.entries\<close>, \<^verbatim>\<open>Object.values\<close> and of the spread operator): the keys
  that are array indices (canonical decimal numerals below \<open>2^32 - 1\<close>) in ascending numeric
  order, then every other key in the order of its creation. The prototype of an object is
  not part of the value: every function of the context reads an object through its own
  enumerable properties.
\<close>

definition is_digit :: "char \<Rightarrow> bool" where
  "is_digit c = (CHR ''0'' \<le> c \<and> c \<le> CHR ''9'')"

definition index_value :: "string \<Rightarrow> int" where
  "index_value s = foldl (\<lambda>n c. 10 * n + (of_char c - 48)) 0 s"

definition is_array_index :: "string \<Rightarrow> bool" where
  "is_array_index s =
     (s \<noteq> [] \<and> list_all is_digit s \<and> (hd s \<noteq> CHR ''0'' \<or> s = ''0'')
      \<and> index_value s < 4294967295)"

definition key_precedes :: "string \<Rightarrow> string \<Rightarrow> bool" where
  "key_precedes k k' =
     (is_array_index k \<and> (if is_array_index k' then index_value k < index_value k' else True))"

text \<open>The own property \<open>k\<close> of an object is created or overwritten: an existing property
  keeps its place; a new one is created at its place in the enumeration order. This is
  \<^verbatim>\<open>obj[k] = v\<close> for every key but \<^verbatim>\<open>__proto__\<close>. The objects that the context fills in
  this way are keyed by node ids, taken to be ordinary names, and by the keys of stored
  outputs, among which the compaction (which builds every stored output) creates no
  \<^verbatim>\<open>__proto__\<close>.\<close>

fun obj_set :: "string \<Rightarrow> 'v \<Rightarrow> (string \<times> 'v) list \<Rightarrow> (string \<times> 'v) list" where
  "obj_set k v [] = [(k, v)]"
| "obj_set k v ((k', v') # ps) =
     (if k' = k then (k, v) # ps
      else if key_precedes k k' then (k, v) # (k', v') # ps
      else (k', v') # obj_set k v ps)"

text \<open>\<^verbatim>\<open>result[key] = v\<close> on an object made by the literal \<^verbatim>\<open>{}\<close>, for a key that comes from
  outside: the key \<^verbatim>\<open>__proto__\<close> reaches the accessor that \<^verbatim>\<open>Object.prototype\<close> defines, which
  sets the prototype of the object (to \<open>v\<close> when \<open>v\<close> is an object or \<^verbatim>\<open>null\<close>) and creates
  no own property; every other key is created or overwritten.\<close>

definition assign_property :: "string \<Rightarrow> 'v \<Rightarrow> (string \<times> 'v) list \<Rightarrow> (string \<times> 'v) list" where
  "assign_property k v ps = (if k = ''__proto__'' then ps else obj_set k v ps)"

text \<open>\<^verbatim>\<open>delete obj[k]\<close>.\<close>

definition obj_delete :: "string \<Rightarrow> (string \<times> 'v) list \<Rightarrow> (string \<times> 'v) list" where
  "obj_delete k ps = filter (\<lambda>(k', v). k' \<noteq> k) ps"

text \<open>\<^verbatim>\<open>{ ...a, ...b }\<close>: a fresh object that receives the properties of \<open>a\<close>, then those of
  \<open>b\<close>.\<close>

definition obj_assign :: "(string \<times> 'v) list \<Rightarrow> (string \<times> 'v) list \<Rightarrow> (string \<times> 'v) list" where
  "obj_assign target src = foldl (\<lambda>acc (k, v). obj_set k v acc) target src"

definition spread2 :: "(string \<times> 'v) list \<Rightarrow> (string \<times> 'v) list \<Rightarrow> (string \<times> 'v) list" where
  "spread2 a b = obj_assign (obj_assign [] a) b"

text \<open>\<^verbatim>\<open>Array.prototype.join\<close> on strings.\<close>

fun join :: "string \<Rightarrow> string list \<Rightarrow> string" where
  "join sep [] = []"
| "join sep [s] = s"
| "join sep (s # t # ss) = s @ sep @ join sep (t # ss)"

text \<open>The values a JavaScript object can really be: no key twice, keys in enumeration
  order.\<close>

definition wf_keys :: "string list \<Rightarrow> bool" where
  "wf_keys ks = (distinct ks \<and> sorted_wrt (\<lambda>a b. \<not> key_precedes b a) ks)"

fun wf_json :: "json \<Rightarrow> bool" where
  "wf_json (JArr xs) = list_all wf_json xs"
| "wf_json (JObj ps) = (wf_keys (map fst ps) \<and> list_all wf_json (map snd ps))"
| "wf_json v = True"

text \<open>No object inside the value has an own key named \<^verbatim>\<open>__proto__\<close>.\<close>

fun proto_free :: "json \<Rightarrow> bool" where
  "proto_free (JArr xs) = list_all proto_free xs"
| "proto_free (JObj ps) = (''__proto__'' \<notin> set (map fst ps) \<and> list_all proto_free (map snd ps))"
| "proto_free v = True"

section \<open>Schema signature and compaction\<close>

lemma size_map_of:
  "map_of ps k = Some v \<Longrightarrow> size v < Suc (size_list (size_prod (\<lambda>_. 0) size) ps)"
  by (induction ps) (auto split: if_splits)

text \<open>\<^verbatim>\<open>getSchemaSignature\<close>, WorkflowExecutionContext.tsx lines 67-82.\<close>

function getSchemaSignature :: "json \<Rightarrow> string" where
  "getSchemaSignature JNull = ''null''"
| "getSchemaSignature (JArr []) = ''array:empty''"
| "getSchemaSignature (JArr (first # rest)) = ''array:'' @ getSchemaSignature first"
| "getSchemaSignature (JObj ps) =
     (let keys = sort (map fst ps);
          signatures = map (\<lambda>key. key @ '':'' @
             (case map_of ps key of Some v \<Rightarrow> getSchemaSignature v | None \<Rightarrow> ''undefined'')) keys
      in ''object:{'' @ join '','' signatures @ ''}'')"
| "getSchemaSignature (JBool b) = ''boolean''"
| "getSchemaSignature (JNum n) = ''number''"
| "getSchemaSignature (JStr s) = ''string''"
  by pat_completeness auto
termination
  by (relation "measure size") (auto dest: size_map_of)

text \<open>\<^verbatim>\<open>hasUniformSchema\<close>, lines 87-91.\<close>

definition hasUniformSchema :: "json list \<Rightarrow> bool" where
  "hasUniformSchema arr =
     (if length arr \<le> 1 then True
      else (let firstSignature = getSchemaSignature (arr ! 0)
            in list_all (\<lambda>item. getSchemaSignature item = firstSignature) arr))"

text \<open>\<^verbatim>\<open>optimizeOutputForStorage\<close>, lines 97-124. An empty array is never longer than the
  threshold, so it takes the element-wise branch. The object branch assigns every entry of
  \<^verbatim>\<open>Object.entries(value)\<close> to the fresh object \<^verbatim>\<open>result\<close>; the value can hold an own key
  \<^verbatim>\<open>__proto__\<close> (an object read by \<^verbatim>\<open>JSON.parse\<close> can), which the assignment does not
  create in \<^verbatim>\<open>result\<close>.\<close>

fun optimizeOutputForStorage :: "json \<Rightarrow> nat \<Rightarrow> json" where
  "optimizeOutputForStorage JNull arrayThreshold = JNull"
| "optimizeOutputForStorage (JArr []) arrayThreshold = JArr []"
| "optimizeOutputForStorage (JArr (first # rest)) arrayThreshold =
     (if length (first # rest) > arrayThreshold \<and> hasUniformSchema (first # rest) then
        JObj [(''__optimized'', JBool True),
              (''__originalLength'', JNum (Finite (of_nat (length (first # rest))))),
              (''items'', JArr [optimizeOutputForStorage first arrayThreshold])]
      else JArr (map (\<lambda>item. optimizeOutputForStorage item arrayThreshold) (first # rest)))"
| "optimizeOutputForStorage (JObj ps) arrayThreshold =
     JObj (foldl (\<lambda>result (key, val).
                    assign_property key (optimizeOutputForStorage val arrayThreshold) result) [] ps)"
| "optimizeOutputForStorage (JBool b) arrayThreshold = JBool b"
| "optimizeOutputForStorage (JNum n) arrayThreshold = JNum n"
| "optimizeOutputForStorage (JStr s) arrayThreshold = JStr s"

subsection \<open>The reference definition of compaction\<close>

text \<open>\<open>UniformSchema\<close>: every element's signature equals the first element's signature.\<close>

definition UniformSchema :: "json list \<Rightarrow> bool" where
  "UniformSchema a = (\<forall>x \<in> set a. getSchemaSignature x = getSchemaSignature (hd a))"

text \<open>\<open>Compact\<close> as the specification words it: a long uniform array becomes the marker
  with the original length and one compacted representative; any other array is compacted
  element-wise; an object field-wise; a scalar is unchanged.\<close>

fun Compact_spec :: "nat \<Rightarrow> json \<Rightarrow> json" where
  "Compact_spec threshold (JArr []) = JArr []"
| "Compact_spec threshold (JArr (first # rest)) =
     (if length (first # rest) > threshold \<and> UniformSchema (first # rest) then
        JObj [(''__optimized'', JBool True),
              (''__originalLength'', JNum (Finite (of_nat (length (first # rest))))),
              (''items'', JArr [Compact_spec threshold first])]
      else JArr (map (Compact_spec threshold) (first # rest)))"
| "Compact_spec threshold (JObj ps) = JObj (map (\<lambda>(k, v). (k, Compact_spec threshold v)) ps)"
| "Compact_spec threshold v = v"

text \<open>A value with every array truncated to one representative element.\<close>

fun truncate_arrays :: "json \<Rightarrow> json" where
  "truncate_arrays (JArr []) = JArr []"
| "truncate_arrays (JArr (first # rest)) = JArr [truncate_arrays first]"
| "truncate_arrays (JObj ps) = JObj (map (\<lambda>(k, v). (k, truncate_arrays v)) ps)"
| "truncate_arrays v = v"

text \<open>No array that the signature looks at (the value itself, the first element of an array,
  every field of an object, and so on inside these) is replaced by a marker.\<close>

fun spine_kept :: "nat \<Rightarrow> json \<Rightarrow> bool" where
  "spine_kept threshold (JArr []) = True"
| "spine_kept threshold (JArr (first # rest)) =
     (\<not> (length (first # rest) > threshold \<and> hasUniformSchema (first # rest))
      \<and> spine_kept threshold first)"
| "spine_kept threshold (JObj ps) = list_all (spine_kept threshold) (map snd ps)"
| "spine_kept threshold v = True"

subsection \<open>Decompaction of the marker\<close>

text \<open>The program has no function that reads a marker back. Decompaction is the reading that
  the specification gives to a marker: an object whose fields are exactly \<^verbatim>\<open>__optimized\<close>
  (true), \<^verbatim>\<open>__originalLength\<close> (a number) and \<^verbatim>\<open>items\<close> (an array of one element) stands for
  an array of elements shaped like that one. \<open>marker_item\<close> recognises such an object and
  gives its representative.\<close>

definition marker_item :: "(string \<times> json) list \<Rightarrow> json option" where
  "marker_item ps =
     (if length ps = 3 \<and> map_of ps ''__optimized'' = Some (JBool True) then
        (case map_of ps ''__originalLength'' of
           Some (JNum n) \<Rightarrow>
             (case map_of ps ''items'' of
                Some (JArr [x]) \<Rightarrow> Some x
              | _ \<Rightarrow> None)
         | _ \<Rightarrow> None)
      else None)"

lemma marker_item_size:
  "marker_item ps = Some x \<Longrightarrow> size x < Suc (size_list (size_prod (\<lambda>_. 0) size) ps)"
proof -
  assume "marker_item ps = Some x"
  then have "map_of ps ''items'' = Some (JArr [x])"
    by (auto simp: marker_item_def split: if_splits option.splits json.splits list.splits)
  then have "size (JArr [x]) < Suc (size_list (size_prod (\<lambda>_. 0) size) ps)"
    by (rule size_map_of)
  then show ?thesis by simp
qed

text \<open>\<open>decompact_spec\<close>: every marker inside a compacted value is replaced by the array of
  its one (decompacted) representative; the original length is not restored.\<close>

function decompact_spec :: "json \<Rightarrow> json" where
  "decompact_spec (JArr xs) = JArr (map decompact_spec xs)"
| "decompact_spec (JObj ps) =
     (case marker_item ps of
        Some x \<Rightarrow> JArr [decompact_spec x]
      | None \<Rightarrow> JObj (map (\<lambda>(k, v). (k, decompact_spec v)) ps))"
| "decompact_spec JNull = JNull"
| "decompact_spec (JBool b) = JBool b"
| "decompact_spec (JNum n) = JNum n"
| "decompact_spec (JStr s) = JStr s"
  by pat_completeness auto
termination
  by (relation "measure size") (auto dest: marker_item_size simp: less_Suc_eq_le size_list_estimation')

text \<open>No object inside the value is itself shaped like a marker.\<close>

fun marker_free :: "json \<Rightarrow> bool" where
  "marker_free (JArr xs) = list_all marker_free xs"
| "marker_free (JObj ps) = (marker_item ps = None \<and> list_all marker_free (map snd ps))"
| "marker_free v = True"

section \<open>The execution state store\<close>

datatype exec_status = StatusSuccess | StatusError | StatusPending

record NodeExecutionResult =
  status :: exec_status
  "output" :: "(string \<times> json) list"
  timestamp :: nat
  nodeType :: string
  nodeName :: string

record WorkflowExecutionState =
  session :: "(string \<times> json) list"
  source :: "(string \<times> json) list"
  nodeOutputs :: "(string \<times> NodeExecutionResult) list"
  lastExecutionId :: "string option"
  lastExecutionTime :: "nat option"

text \<open>The state the provider starts with, and the one \<^verbatim>\<open>clearAllOutputs\<close> sets
  (lines 143-147 and 217-223).\<close>

definition initialState :: WorkflowExecutionState where
  "initialState = \<lparr>session = [], source = [], nodeOutputs = [],
                    lastExecutionId = None, lastExecutionTime = None\<rparr>"

definition clearAllOutputs :: WorkflowExecutionState where
  "clearAllOutputs = \<lparr>session = [], source = [], nodeOutputs = [],
                       lastExecutionId = None, lastExecutionTime = None\<rparr>"

text \<open>The cast \<^verbatim>\<open>as Record<string, unknown>\<close>: the compaction of an object is an object.\<close>

fun as_record :: "json \<Rightarrow> (string \<times> json) list" where
  "as_record (JObj ps) = ps"
| "as_record v = []"

text \<open>\<^verbatim>\<open>updateNodeOutput\<close>, lines 152-189, with the output an object as the function
  declares it (\<^verbatim>\<open>output: Record<string, unknown>\<close>). \<open>now\<close> is the reading of
  \<^verbatim>\<open>Date.now()\<close>.\<close>

definition updateNodeOutput ::
    "nat \<Rightarrow> string \<Rightarrow> (string \<times> json) list \<Rightarrow> string \<Rightarrow> string
      \<Rightarrow> WorkflowExecutionState \<Rightarrow> WorkflowExecutionState" where
  "updateNodeOutput now nodeId output' nodeType' nodeName' prevState =
     (let optimizedOutput = as_record (optimizeOutputForStorage (JObj output') 2);
          newState = prevState\<lparr>nodeOutputs :=
             obj_set nodeId \<lparr>status = StatusSuccess, output = optimizedOutput, timestamp = now,
                              nodeType = nodeType', nodeName = nodeName'\<rparr>
               (nodeOutputs prevState)\<rparr>;
          newState = (if nodeType' = ''chatInputNode''
                      then newState\<lparr>session := optimizedOutput\<rparr> else newState)
      in newState\<lparr>source := optimizedOutput\<rparr>)"

text \<open>The two rebuilding loops of \<^verbatim>\<open>clearNodeOutput\<close>, lines 200-211.\<close>

definition rebuild_session :: "NodeExecutionResult list \<Rightarrow> (string \<times> json) list" where
  "rebuild_session remainingOutputs =
     foldl (\<lambda>session' result.
              if nodeType result = ''chatInputNode'' then spread2 session' (output result)
              else session') [] remainingOutputs"

definition rebuild_source :: "NodeExecutionResult list \<Rightarrow> (string \<times> json) list" where
  "rebuild_source remainingOutputs =
     foldl (\<lambda>source' result. spread2 source' (output result)) [] remainingOutputs"

text \<open>\<^verbatim>\<open>clearNodeOutput\<close>, lines 191-215.\<close>

definition clearNodeOutput :: "string \<Rightarrow> WorkflowExecutionState \<Rightarrow> WorkflowExecutionState" where
  "clearNodeOutput nodeId prevState =
     (let remaining = obj_delete nodeId (nodeOutputs prevState);
          remainingOutputs = map snd remaining
      in prevState\<lparr>nodeOutputs := remaining,
                    session := rebuild_session remainingOutputs,
                    source := rebuild_source remainingOutputs\<rparr>)"

text \<open>The states that sequences of the three operations reach from the initial state.\<close>

inductive reachable :: "WorkflowExecutionState \<Rightarrow> bool" where
  reachable_init: "reachable initialState"
| reachable_update: "reachable s \<Longrightarrow> reachable (updateNodeOutput now nodeId out ty nm s)"
| reachable_clear: "reachable s \<Longrightarrow> reachable (clearNodeOutput nodeId s)"
| reachable_clearAll: "reachable s \<Longrightarrow> reachable clearAllOutputs"

text \<open>Both aggregates are what a replay of \<open>nodeOutputs\<close> alone gives: \<open>session\<close> the merge
  of the chat-input nodes' outputs, \<open>source\<close> the merge of all outputs, a later output
  winning on each key.\<close>

definition aggregates_derivable :: "WorkflowExecutionState \<Rightarrow> bool" where
  "aggregates_derivable s =
     (session s = rebuild_session (map snd (nodeOutputs s)) \<and>
      source s = rebuild_source (map snd (nodeOutputs s)))"

section \<open>Predecessors and available data\<close>

record Node =
  node_id :: string
  node_type :: "string option"

record Edge =
  edge_source :: string
  edge_target :: string

text \<open>\<^verbatim>\<open>Set.prototype.add\<close> on a set kept in insertion order.\<close>

definition set_add :: "'a \<Rightarrow> 'a list \<Rightarrow> 'a list" where
  "set_add x xs = (if x \<in> set xs then xs else xs @ [x])"

text \<open>\<^verbatim>\<open>dfs\<close> inside \<^verbatim>\<open>findPredecessors\<close>, lines 270-281: the state is the pair of the sets
  \<^verbatim>\<open>predecessors\<close> and \<^verbatim>\<open>visited\<close>; \<open>dfs_forEach\<close> is the \<^verbatim>\<open>edges.forEach\<close> loop over the
  edges still to look at.\<close>

function dfs :: "Edge list \<Rightarrow> string \<Rightarrow> string list \<times> string list \<Rightarrow> string list \<times> string list"
  and dfs_forEach :: "Edge list \<Rightarrow> string \<Rightarrow> Edge list \<Rightarrow> string list \<times> string list
                       \<Rightarrow> string list \<times> string list"
where
  "dfs edges nodeId (predecessors, visited) =
     (if nodeId \<in> set visited then (predecessors, visited)
      else dfs_forEach edges nodeId edges (predecessors, set_add nodeId visited))"
| "dfs_forEach edges nodeId [] st = st"
| "dfs_forEach edges nodeId (edge # rest) (predecessors, visited) =
     (if edge_target edge = nodeId
      then dfs_forEach edges nodeId rest
             (dfs edges (edge_source edge) (set_add (edge_source edge) predecessors, visited))
      else dfs_forEach edges nodeId rest (predecessors, visited))"
  by pat_completeness auto

lemma dfs_visited_mono_dom:
  "dfs_dfs_forEach_dom (Inl (es, n, st)) \<Longrightarrow> set (snd st) \<subseteq> set (snd (dfs es n st))"
  "dfs_dfs_forEach_dom (Inr (es, n, rest, st)) \<Longrightarrow>
     set (snd st) \<subseteq> set (snd (dfs_forEach es n rest st))"
proof (induction es n st and es n rest st rule: dfs_dfs_forEach.pinduct)
  case (1 edges nodeId predecessors visited)
  then show ?case by (auto simp: dfs.psimps set_add_def split: if_splits)
next
  case (2 edges nodeId st)
  then show ?case by (simp add: dfs_forEach.psimps)
next
  case (3 edges nodeId edge rest predecessors visited)
  then show ?case by (auto simp: dfs_forEach.psimps split: if_splits)
qed

text \<open>The traversal terminates on every edge list, cyclic or not: a call of \<open>dfs\<close> on an
  unvisited node shrinks the set of unvisited nodes, and the loop shortens its edge list.\<close>

termination dfs
proof (relation "measures
    [\<lambda>x. case x of
        Inl (es, n, P, V) \<Rightarrow> card ((edge_source ` set es \<union> {n}) - set V)
      | Inr (es, n, rest, P, V) \<Rightarrow>
          card ((edge_source ` set es \<union> edge_source ` set rest) - set V),
     \<lambda>x. case x of Inl _ \<Rightarrow> 0 | Inr (es, n, rest, st) \<Rightarrow> Suc (length rest)]", goal_cases)
  case 1
  then show ?case by simp
next
  case (2 edges nodeId predecessors visited)
  have "card (edge_source ` set edges - set (set_add nodeId visited))
        < card ((edge_source ` set edges \<union> {nodeId}) - set visited)"
    using 2 by (intro psubset_card_mono) (auto simp: set_add_def)
  then show ?case by simp
next
  case (3 edges nodeId edge rest predecessors visited)
  have "card ((edge_source ` set edges \<union> {edge_source edge}) - set visited)
        \<le> card ((edge_source ` set edges \<union> edge_source ` set (edge # rest)) - set visited)"
    by (intro card_mono) auto
  then show ?case by auto
next
  case (4 edges nodeId edge rest predecessors visited)
  obtain P' V' where r:
    "dfs edges (edge_source edge) (set_add (edge_source edge) predecessors, visited) = (P', V')"
    by (cases "dfs edges (edge_source edge) (set_add (edge_source edge) predecessors, visited)")
  have "set visited \<subseteq> set V'"
    using dfs_visited_mono_dom(1)[OF 4(2)] r by simp
  then have "card ((edge_source ` set edges \<union> edge_source ` set rest) - set V')
        \<le> card ((edge_source ` set edges \<union> edge_source ` set (edge # rest)) - set visited)"
    by (intro card_mono) auto
  then show ?case using r by auto
next
  case (5 edges nodeId edge rest predecessors visited)
  have "card ((edge_source ` set edges \<union> edge_source ` set rest) - set visited)
        \<le> card ((edge_source ` set edges \<union> edge_source ` set (edge # rest)) - set visited)"
    by (intro card_mono) auto
  then show ?case by auto
qed

text \<open>\<^verbatim>\<open>findPredecessors\<close>, lines 266-285. It has no failure branch: the result is always
  the array of the collected predecessors.\<close>

definition findPredecessors :: "Edge list \<Rightarrow> string \<Rightarrow> string list" where
  "findPredecessors edges targetNodeId = fst (dfs edges targetNodeId ([], []))"

text \<open>The outcome of a call of \<^verbatim>\<open>findPredecessors\<close>, with the errors a resolver could raise:
  the function has no \<^verbatim>\<open>throw\<close> and its traversal terminates, so the outcome is always the
  returned array.\<close>

datatype resolver_error = CyclicGraphError | DanglingEdgeError

definition findPredecessors_outcome :: "Edge list \<Rightarrow> string \<Rightarrow> resolver_error + string list" where
  "findPredecessors_outcome edges targetNodeId = Inr (findPredecessors edges targetNodeId)"

text \<open>The edges as a relation from source to target.\<close>

definition edge_rel :: "Edge list \<Rightarrow> (string \<times> string) set" where
  "edge_rel es = (\<lambda>e. (edge_source e, edge_target e)) ` set es"

text \<open>What a call of \<open>dfs\<close> or of its loop adds to the state: for the sets of predecessors
  and visited nodes before (\<open>st\<close>) and after (\<open>st'\<close>), both grow; every newly visited node
  has all its direct predecessors visited and collected; every newly visited node reaches
  \<open>n\<close>; every newly collected predecessor has an edge to a newly visited node or to a node
  of \<open>T\<close>.\<close>

definition dfs_inv :: "(string \<times> string) set \<Rightarrow> string \<Rightarrow> string set \<Rightarrow>
    string set \<times> string set \<Rightarrow> string set \<times> string set \<Rightarrow> bool" where
  "dfs_inv R n T st st' =
     (snd st \<subseteq> snd st' \<and> fst st \<subseteq> fst st' \<and>
      (\<forall>v p. v \<in> snd st' \<longrightarrow> v \<notin> snd st \<longrightarrow> (p, v) \<in> R \<longrightarrow> p \<in> snd st' \<and> p \<in> fst st') \<and>
      (\<forall>v. v \<in> snd st' \<longrightarrow> v \<notin> snd st \<longrightarrow> (v, n) \<in> R\<^sup>*) \<and>
      (\<forall>p. p \<in> fst st' \<longrightarrow> p \<notin> fst st \<longrightarrow>
           (\<exists>t \<in> T. (p, t) \<in> R) \<or> (\<exists>v. v \<in> snd st' \<and> v \<notin> snd st \<and> (p, v) \<in> R)))"

definition sets_of :: "string list \<times> string list \<Rightarrow> string set \<times> string set" where
  "sets_of st = (set (fst st), set (snd st))"

text \<open>\<^verbatim>\<open>getNodeById\<close>, lines 256-261.\<close>

definition getNodeById :: "Node list \<Rightarrow> string \<Rightarrow> Node option" where
  "getNodeById nodes nodeId = find (\<lambda>node. node_id node = nodeId) nodes"

text \<open>\<^verbatim>\<open>String.prototype.includes\<close>.\<close>

fun str_includes :: "string \<Rightarrow> string \<Rightarrow> bool" where
  "str_includes [] sub = (sub = [])"
| "str_includes (c # cs) sub = (prefix sub (c # cs) \<or> str_includes cs sub)"

text \<open>\<^verbatim>\<open>filterOutput\<close>, lines 320-329: a falsy value, a non-object and an array are returned
  as they are.\<close>

fun filterOutput :: "json \<Rightarrow> json" where
  "filterOutput (JObj ps) =
     JObj (foldl (\<lambda>filtered (key, val).
                    if \<not> str_includes key ''session.direct_input''
                    then obj_set key val filtered else filtered) [] ps)"
| "filterOutput output' = output'"

text \<open>The list \<^verbatim>\<open>predecessorIds\<close>, lines 287-289.\<close>

definition predecessorIds :: "Edge list \<Rightarrow> string \<Rightarrow> string list" where
  "predecessorIds edges nodeId = filter (\<lambda>id'. id' \<noteq> nodeId) (findPredecessors edges nodeId)"

text \<open>The list \<^verbatim>\<open>directPredecessors\<close>, lines 306-317.\<close>

definition directPredecessors :: "Node list \<Rightarrow> Edge list \<Rightarrow> string \<Rightarrow> string list" where
  "directPredecessors nodes edges nodeId =
     (let currentNode = getNodeById nodes nodeId
      in filter (\<lambda>predecessorId.
            if (case currentNode of Some n \<Rightarrow> node_type n = Some ''agentNode'' | None \<Rightarrow> False)
            then (case getNodeById nodes predecessorId of
                    Some predecessorNode \<Rightarrow> node_type predecessorNode \<noteq> Some ''toolBuilderNode''
                  | None \<Rightarrow> True)
            else True)
          (map edge_source (filter (\<lambda>edge. edge_target edge = nodeId) edges)))"


text \<open>The loop that fills an object with the filtered outputs of the given nodes (lines 333-338
  and 348-353). A stored output is an object, hence truthy: the test
  \<^verbatim>\<open>predecessorOutput && predecessorOutput.output\<close> asks whether the node has a result.\<close>

definition collectOutputs ::
    "(string \<times> NodeExecutionResult) list \<Rightarrow> string list \<Rightarrow> (string \<times> json) list" where
  "collectOutputs outs ids =
     foldl (\<lambda>acc predecessorId.
              case map_of outs predecessorId of
                Some predecessorOutput \<Rightarrow>
                  obj_set predecessorId (filterOutput (JObj (output predecessorOutput))) acc
              | None \<Rightarrow> acc) [] ids"

text \<open>The object \<^verbatim>\<open>source\<close> built from the direct predecessors, lines 340-354.\<close>

definition buildSource ::
    "(string \<times> NodeExecutionResult) list \<Rightarrow> string list \<Rightarrow> json" where
  "buildSource outs directPredecessors' =
     (if length directPredecessors' = 1 then
        (case map_of outs (directPredecessors' ! 0) of
           Some predecessorOutput \<Rightarrow> filterOutput (JObj (output predecessorOutput))
         | None \<Rightarrow> JObj [])
      else JObj (collectOutputs outs directPredecessors'))"

text \<open>\<^verbatim>\<open>getAvailableDataForNode\<close>, lines 263-366.\<close>

definition getAvailableDataForNode ::
    "WorkflowExecutionState \<Rightarrow> Node list \<Rightarrow> Edge list \<Rightarrow> string \<Rightarrow> json" where
  "getAvailableDataForNode state nodes edges nodeId =
     (let predecessorIds' = predecessorIds edges nodeId;
          node = getNodeById nodes nodeId
      in if predecessorIds' = [] \<and>
            (case node of Some n \<Rightarrow> node_type n = Some ''chatInputNode'' | None \<Rightarrow> False)
         then JObj (session state)
         else if predecessorIds' = [] then JNull
         else
           (let directPredecessors' = directPredecessors nodes edges nodeId;
                nodeOutputs' = collectOutputs (nodeOutputs state) predecessorIds';
                source' = buildSource (nodeOutputs state) directPredecessors'
            in JObj [(''session'', JObj (session state)),
                     (''source'', source'),
                     (''node_outputs'', JObj nodeOutputs')]))"


section \<open>Typed parsing of input text\<close>

text \<open>The schema types that \<^verbatim>\<open>parseInputValue\<close> switches on.\<close>

datatype SchemaType = SString | SNumber | SBoolean | SObject | SArray | SAny

datatype js_error = JsError string

text \<open>\<^verbatim>\<open>String.prototype.toLowerCase\<close> and \<^verbatim>\<open>String.prototype.trim\<close> on ASCII text: the
  letters \<^verbatim>\<open>A\<close> to \<^verbatim>\<open>Z\<close> are lowered, and the six ASCII blanks are trimmed. Beyond ASCII the
  built-in functions know more letters and more blanks (the no-break space \<^verbatim>\<open>U+00A0\<close> among
  them); a statement that depends on letter case or on blanks is made for the texts of
  \<open>is_ascii\<close>.\<close>

definition is_ascii :: "string \<Rightarrow> bool" where
  "is_ascii s = list_all (\<lambda>c. of_char c < (128 :: nat)) s"

definition lower_char :: "char \<Rightarrow> char" where
  "lower_char c =
     (case map_of (zip ''ABCDEFGHIJKLMNOPQRSTUVWXYZ'' ''abcdefghijklmnopqrstuvwxyz'') c of
        Some l \<Rightarrow> l
      | None \<Rightarrow> c)"

definition toLowerCase :: "string \<Rightarrow> string" where
  "toLowerCase s = map lower_char s"

definition is_white_space :: "char \<Rightarrow> bool" where
  "is_white_space c = (c \<in> set [CHR 0x09, CHR 0x0A, CHR 0x0B, CHR 0x0C, CHR 0x0D, CHR '' ''])"

definition trim :: "string \<Rightarrow> string" where
  "trim s = rev (dropWhile is_white_space (rev (dropWhile is_white_space s)))"

text \<open>The \<^verbatim>\<open>try\<close> block of \<^verbatim>\<open>parseInputValue\<close> (part_007, lines 454-496); a \<^verbatim>\<open>throw\<close> is the
  result \<open>Inl\<close>. The built-in functions are parameters: \<open>JSON_parse\<close> is \<^verbatim>\<open>JSON.parse\<close>
  (\<open>None\<close> when it throws), \<open>parseFloat'\<close> is \<^verbatim>\<open>parseFloat\<close>.\<close>

definition parseInputValue_try ::
    "(string \<Rightarrow> json option) \<Rightarrow> (string \<Rightarrow> number) \<Rightarrow> string \<Rightarrow> SchemaType \<Rightarrow> js_error + json" where
  "parseInputValue_try JSON_parse parseFloat' value type =
     (case type of
        SString \<Rightarrow> Inr (JStr value)
      | SNumber \<Rightarrow>
          (let num = parseFloat' value
           in if num = NaN then Inl (JsError (''Invalid number: '' @ value)) else Inr (JNum num))
      | SBoolean \<Rightarrow>
          (let lowerValue = trim (toLowerCase value)
           in if lowerValue = ''true'' \<or> lowerValue = ''1'' \<or> lowerValue = ''yes''
              then Inr (JBool True)
              else if lowerValue = ''false'' \<or> lowerValue = ''0'' \<or> lowerValue = ''no''
              then Inr (JBool False)
              else Inl (JsError (''Invalid boolean: '' @ value)))
      | SObject \<Rightarrow>
          (case JSON_parse value of
             Some v \<Rightarrow> Inr v
           | None \<Rightarrow> Inl (JsError (''Invalid JSON: '' @ value)))
      | SArray \<Rightarrow>
          (case JSON_parse value of
             Some v \<Rightarrow> Inr v
           | None \<Rightarrow> Inl (JsError (''Invalid JSON: '' @ value)))
      | SAny \<Rightarrow>
          (case JSON_parse value of
             Some v \<Rightarrow> Inr v
           | None \<Rightarrow>
               (let num = parseFloat' value
                in if num \<noteq> NaN then Inr (JNum num)
                   else (let lowerValue = trim (toLowerCase value)
                         in if lowerValue = ''true'' then Inr (JBool True)
                            else if lowerValue = ''false'' then Inr (JBool False)
                            else Inr (JStr value)))))"

text \<open>\<^verbatim>\<open>parseInputValue\<close>, part_007 lines 449-502: the guard for empty and blank text, the
  \<^verbatim>\<open>try\<close> block, and the \<^verbatim>\<open>catch\<close> that returns the original string.\<close>

definition parseInputValue ::
    "(string \<Rightarrow> json option) \<Rightarrow> (string \<Rightarrow> number) \<Rightarrow> string \<Rightarrow> SchemaType \<Rightarrow> js_error + json" where
  "parseInputValue JSON_parse parseFloat' value type =
     (if value = [] \<or> trim value = [] then Inr (JStr value)
      else (case parseInputValue_try JSON_parse parseFloat' value type of
              Inl error \<Rightarrow> Inr (JStr value)
            | Inr v \<Rightarrow> Inr v))"

text \<open>The values of the two built-in functions on the texts of the examples below:
  \<^verbatim>\<open>JSON.parse\<close> reads \<^verbatim>\<open>true\<close>, \<^verbatim>\<open>false\<close>, \<^verbatim>\<open>null\<close>, \<^verbatim>\<open>1\<close> and \<^verbatim>\<open>0\<close> and throws on the
  other texts used there; \<^verbatim>\<open>parseFloat\<close> reads \<^verbatim>\<open>1\<close> and \<^verbatim>\<open>0\<close>, reads \<^verbatim>\<open>12abc\<close> as 12 (it
  parses the longest prefix that is a decimal literal and ignores the rest), and gives
  \<^verbatim>\<open>NaN\<close> on the others, none of which starts with a digit, a sign or a point.\<close>

definition JSON_parse_table :: "string \<Rightarrow> json option" where
  "JSON_parse_table s = map_of [(''true'', JBool True), (''false'', JBool False), (''null'', JNull),
                                (''1'', JNum (Finite 1)), (''0'', JNum (Finite 0))] s"

definition parseFloat_table :: "string \<Rightarrow> number" where
  "parseFloat_table s =
     (case map_of [(''1'', Finite 1), (''0'', Finite 0), (''12abc'', Finite 12)] s of
        Some n \<Rightarrow> n
      | None \<Rightarrow> NaN)"

section \<open>Properties of objects\<close>

lemma map_of_obj_set: "map_of (obj_set k v ps) k' = (if k' = k then Some v else map_of ps k')"
  by (induction ps) auto


lemma obj_set_append:
  "k \<notin> set (map fst ps) \<Longrightarrow> \<forall>k' \<in> set (map fst ps). \<not> key_precedes k k' \<Longrightarrow>
     obj_set k v ps = ps @ [(k, v)]"
  by (induction ps) auto

lemma wf_keys_snoc:
  "wf_keys (ks @ [k]) = (wf_keys ks \<and> k \<notin> set ks \<and> (\<forall>k' \<in> set ks. \<not> key_precedes k k'))"
  by (auto simp: wf_keys_def sorted_wrt_append)





lemma wf_keys_filter: "wf_keys ks \<Longrightarrow> wf_keys (filter P ks)"
  by (simp add: wf_keys_def sorted_wrt_filter)

lemma foldl_assign_map:
  assumes "wf_keys (map fst ps)" and "\<And>k v. (k, v) \<in> set ps \<Longrightarrow> f v = g v"
  shows "foldl (\<lambda>result (key, val). assign_property key (f val) result) [] ps
         = map (\<lambda>(k, v). (k, g v)) (filter (\<lambda>(k, v). k \<noteq> ''__proto__'') ps)"
  using assms
proof (induction ps rule: rev_induct)
  case Nil
  then show ?case by simp
next
  case (snoc p ps)
  obtain k v where p: "p = (k, v)" by (cases p)
  let ?kept = "filter (\<lambda>(k, v). k \<noteq> ''__proto__'') ps"
  from snoc.prems(1) have wf: "wf_keys (map fst ps)" and nin: "k \<notin> set (map fst ps)"
    and prec: "\<forall>k' \<in> set (map fst ps). \<not> key_precedes k k'"
    by (simp_all add: p wf_keys_snoc)
  have IH: "foldl (\<lambda>result (key, val). assign_property key (f val) result) [] ps
            = map (\<lambda>(k, v). (k, g v)) ?kept"
  proof (rule snoc.IH[OF wf])
    fix k v assume "(k, v) \<in> set ps"
    then show "f v = g v" using snoc.prems(2)[of k v] by simp
  qed
  have keys: "set (map fst (map (\<lambda>(k, v). (k, g v)) ?kept)) \<subseteq> set (map fst ps)"
    by force
  have app: "obj_set k (g v) (map (\<lambda>(k, v). (k, g v)) ?kept) = map (\<lambda>(k, v). (k, g v)) ?kept @ [(k, g v)]"
  proof (rule obj_set_append)
    show "k \<notin> set (map fst (map (\<lambda>(k, v). (k, g v)) ?kept))" using keys nin by blast
    show "\<forall>k' \<in> set (map fst (map (\<lambda>(k, v). (k, g v)) ?kept)). \<not> key_precedes k k'"
      using keys prec by blast
  qed
  have step: "assign_property k (g v) (map (\<lambda>(k, v). (k, g v)) ?kept)
              = map (\<lambda>(k, v). (k, g v)) (filter (\<lambda>(k, v). k \<noteq> ''__proto__'') (ps @ [(k, v)]))"
    using app by (simp add: assign_property_def)
  show ?case
    using snoc.prems(2)[of k v] by (simp add: p IH step del: filter_append)
qed

lemma filter_no_proto:
  "''__proto__'' \<notin> set (map fst ps) \<Longrightarrow> filter (\<lambda>(k, v). k \<noteq> ''__proto__'') ps = ps"
  by (induction ps) auto

lemma hasUniformSchema_iff: "hasUniformSchema (first # rest) = UniformSchema (first # rest)"
  by (auto simp: hasUniformSchema_def UniformSchema_def list_all_iff)

lemma optimize_eq_Compact_spec:
  "wf_json v \<Longrightarrow> proto_free v \<Longrightarrow> optimizeOutputForStorage v t = Compact_spec t v"
proof (induction v t rule: optimizeOutputForStorage.induct)
  case (3 first rest arrayThreshold)
  then show ?case by (auto simp: hasUniformSchema_iff list_all_iff)
next
  case (4 ps arrayThreshold)
  have wf: "wf_keys (map fst ps)" using "4.prems" by simp
  have np: "''__proto__'' \<notin> set (map fst ps)" using "4.prems" by simp
  have "\<And>k v. (k, v) \<in> set ps \<Longrightarrow> optimizeOutputForStorage v arrayThreshold = Compact_spec arrayThreshold v"
    using "4.IH" "4.prems" by (force simp: list_all_iff)
  from foldl_assign_map[OF wf this] show ?case by (simp add: filter_no_proto[OF np])
qed simp_all

section \<open>Properties of the signature\<close>

lemma sig_obj_map:
  assumes "\<And>k v. (k, v) \<in> set ps \<Longrightarrow> getSchemaSignature (f v) = getSchemaSignature v"
  shows "getSchemaSignature (JObj (map (\<lambda>(k, v). (k, f v)) ps)) = getSchemaSignature (JObj ps)"
proof -
  have keys: "map fst (map (\<lambda>(k, v). (k, f v)) ps) = map fst ps"
    by (induction ps) auto
  have look: "(case map_of (map (\<lambda>(k, v). (k, f v)) ps) key of
                 Some v \<Rightarrow> getSchemaSignature v | None \<Rightarrow> ''undefined'')
            = (case map_of ps key of Some v \<Rightarrow> getSchemaSignature v | None \<Rightarrow> ''undefined'')" for key
    using assms by (auto simp: map_of_map split: option.splits dest: map_of_SomeD)
  show ?thesis
    by (simp only: getSchemaSignature.simps keys look Let_def)
qed

lemma sig_truncate_arrays: "getSchemaSignature (truncate_arrays v) = getSchemaSignature v"
proof (induction v rule: truncate_arrays.induct)
  case (3 ps)
  have "\<And>k v. (k, v) \<in> set ps \<Longrightarrow> getSchemaSignature (truncate_arrays v) = getSchemaSignature v"
    using "3.IH" by simp
  from sig_obj_map[of ps truncate_arrays, OF this] show ?case by simp
qed simp_all

lemma sig_Compact_spec_kept:
  "spine_kept t v \<Longrightarrow> getSchemaSignature (Compact_spec t v) = getSchemaSignature v"
proof (induction t v rule: Compact_spec.induct)
  case (2 threshold first rest)
  then show ?case by (auto simp: hasUniformSchema_iff)
next
  case (3 threshold ps)
  have "\<And>k v. (k, v) \<in> set ps \<Longrightarrow> getSchemaSignature (Compact_spec threshold v) = getSchemaSignature v"
    using "3.IH" "3.prems" by (force simp: list_all_iff)
  from sig_obj_map[of ps "Compact_spec threshold", OF this] show ?case by simp
qed simp_all

lemma sig_marker:
  "getSchemaSignature (JObj [(''__optimized'', JBool True), (''__originalLength'', JNum n), (''items'', JArr [x])])
   = ''object:{__optimized:boolean,__originalLength:number,items:array:'' @ getSchemaSignature x @ ''}''"
  by (simp add: Let_def)

section \<open>Properties of the decompaction\<close>

lemma optimize_is_bool: "optimizeOutputForStorage v t = JBool b \<Longrightarrow> v = JBool b"
  by (cases "(v, t)" rule: optimizeOutputForStorage.cases) (auto split: if_splits)

lemma optimize_is_num: "optimizeOutputForStorage v t = JNum n \<Longrightarrow> v = JNum n"
  by (cases "(v, t)" rule: optimizeOutputForStorage.cases) (auto split: if_splits)

lemma optimize_is_singleton:
  "optimizeOutputForStorage v t = JArr [y] \<Longrightarrow> \<exists>x. v = JArr [x]"
  by (cases "(v, t)" rule: optimizeOutputForStorage.cases) (auto split: if_splits)

lemma map_of_map_values:
  "map_of (map (\<lambda>(k, v). (k, f v)) ps) key = map_option f (map_of ps key)"
  by (induction ps) auto

lemma marker_item_optimized:
  assumes "marker_item (map (\<lambda>(k, v). (k, optimizeOutputForStorage v t)) ps) = Some y"
  shows "marker_item ps \<noteq> None"
proof -
  let ?qs = "map (\<lambda>(k, v). (k, optimizeOutputForStorage v t)) ps"
  from assms have len: "length ps = 3"
    and o: "map_of ?qs ''__optimized'' = Some (JBool True)"
    by (auto simp: marker_item_def split: if_splits)
  from assms obtain n where l: "map_of ?qs ''__originalLength'' = Some (JNum n)"
    by (auto simp: marker_item_def split: if_splits option.splits json.splits)
  from assms l have i: "map_of ?qs ''items'' = Some (JArr [y])"
    by (auto simp: marker_item_def split: if_splits option.splits json.splits list.splits)
  from o have o': "map_of ps ''__optimized'' = Some (JBool True)"
    by (auto simp: map_of_map_values dest: optimize_is_bool)
  from l have l': "map_of ps ''__originalLength'' = Some (JNum n)"
    by (auto simp: map_of_map_values dest: optimize_is_num)
  from i obtain x where i': "map_of ps ''items'' = Some (JArr [x])"
    by (auto simp: map_of_map_values dest: optimize_is_singleton)
  show ?thesis using len o' l' i' by (simp add: marker_item_def)
qed

lemma marker_item_marker:
  "marker_item [(''__optimized'', JBool True), (''__originalLength'', JNum n), (''items'', JArr [x])] = Some x"
  by (simp add: marker_item_def)

lemma optimize_obj:
  assumes "wf_keys (map fst ps)"
  shows "optimizeOutputForStorage (JObj ps) t
         = JObj (map (\<lambda>(k, v). (k, optimizeOutputForStorage v t)) (filter (\<lambda>(k, v). k \<noteq> ''__proto__'') ps))"
proof -
  have "foldl (\<lambda>result (key, val). assign_property key (optimizeOutputForStorage val t) result) [] ps
        = map (\<lambda>(k, v). (k, optimizeOutputForStorage v t)) (filter (\<lambda>(k, v). k \<noteq> ''__proto__'') ps)"
    using assms by (rule foldl_assign_map) simp
  then show ?thesis by simp
qed

lemma sig_decompact_optimize:
  "wf_json v \<Longrightarrow> proto_free v \<Longrightarrow> marker_free v \<Longrightarrow>
     getSchemaSignature (decompact_spec (optimizeOutputForStorage v t)) = getSchemaSignature v"
proof (induction v t rule: optimizeOutputForStorage.induct)
  case (3 first rest arrayThreshold)
  have f: "wf_json first" "proto_free first" "marker_free first" using "3.prems" by simp_all
  show ?case
  proof (cases "length (first # rest) > arrayThreshold \<and> hasUniformSchema (first # rest)")
    case True
    have IH: "getSchemaSignature (decompact_spec (optimizeOutputForStorage first arrayThreshold))
          = getSchemaSignature first"
      using "3.IH"(1)[OF True f] .
    have "optimizeOutputForStorage (JArr (first # rest)) arrayThreshold =
            JObj [(''__optimized'', JBool True),
                  (''__originalLength'', JNum (Finite (of_nat (length (first # rest))))),
                  (''items'', JArr [optimizeOutputForStorage first arrayThreshold])]"
      using True by simp
    then have "decompact_spec (optimizeOutputForStorage (JArr (first # rest)) arrayThreshold)
               = JArr [decompact_spec (optimizeOutputForStorage first arrayThreshold)]"
      by (simp only: decompact_spec.simps marker_item_marker option.case)
    then show ?thesis using IH by simp
  next
    case False
    have IH: "getSchemaSignature (decompact_spec (optimizeOutputForStorage first arrayThreshold))
          = getSchemaSignature first"
      using "3.IH"(2)[OF False _ f] by simp
    have "optimizeOutputForStorage (JArr (first # rest)) arrayThreshold =
            JArr (map (\<lambda>item. optimizeOutputForStorage item arrayThreshold) (first # rest))"
      using False by auto
    then show ?thesis using IH by simp
  qed
next
  case (4 ps arrayThreshold)
  have wf: "wf_keys (map fst ps)" and np: "''__proto__'' \<notin> set (map fst ps)"
    and nm: "marker_item ps = None"
    using "4.prems" by simp_all
  let ?qs = "map (\<lambda>(k, v). (k, optimizeOutputForStorage v arrayThreshold)) ps"
  have opt: "optimizeOutputForStorage (JObj ps) arrayThreshold = JObj ?qs"
    using optimize_obj[OF wf] by (simp add: filter_no_proto[OF np])
  have nmq: "marker_item ?qs = None"
    using marker_item_optimized[of arrayThreshold ps] nm by (cases "marker_item ?qs") auto
  have dec: "decompact_spec (JObj ?qs)
             = JObj (map (\<lambda>(k, v). (k, decompact_spec (optimizeOutputForStorage v arrayThreshold))) ps)"
  proof -
    have "map (\<lambda>(k, v). (k, decompact_spec v)) ?qs
          = map (\<lambda>(k, v). (k, decompact_spec (optimizeOutputForStorage v arrayThreshold))) ps"
      by (induction ps) auto
    then show ?thesis by (simp only: decompact_spec.simps nmq option.case)
  qed
  have el: "\<And>k v. (k, v) \<in> set ps \<Longrightarrow>
      getSchemaSignature (decompact_spec (optimizeOutputForStorage v arrayThreshold)) = getSchemaSignature v"
    using "4.IH" "4.prems" by (force simp: list_all_iff)
  show ?case
    unfolding opt dec
    by (rule sig_obj_map[of ps "\<lambda>v. decompact_spec (optimizeOutputForStorage v arrayThreshold)"]) (rule el)
qed simp_all

lemma sig_optimize_kept:
  "wf_json v \<Longrightarrow> proto_free v \<Longrightarrow> spine_kept t v \<Longrightarrow>
     getSchemaSignature (optimizeOutputForStorage v t) = getSchemaSignature v"
  by (simp add: optimize_eq_Compact_spec sig_Compact_spec_kept)

section \<open>Properties of the store\<close>

lemma optimize_JObj: "\<exists>ps'. optimizeOutputForStorage (JObj ps) t = JObj ps'"
  by simp

lemma set_obj_set: "set (obj_set k v ps) \<subseteq> insert (k, v) (set ps)"
  by (induction ps) (auto split: if_splits)

lemma obj_set_mem: "(k, v) \<in> set (obj_set k v ps)"
  by (induction ps) auto

lemma set_obj_assign: "set (obj_assign t src) \<subseteq> set t \<union> set src"
  unfolding obj_assign_def
proof (induction src arbitrary: t)
  case Nil
  then show ?case by simp
next
  case (Cons p src)
  obtain k v where p: "p = (k, v)" by (cases p)
  have "set (foldl (\<lambda>acc (k, v). obj_set k v acc) (obj_set k v t) src) \<subseteq> set (obj_set k v t) \<union> set src"
    by (rule Cons.IH)
  then show ?case using set_obj_set[of k v t] by (auto simp: p)
qed

lemma set_spread2: "set (spread2 a b) \<subseteq> set a \<union> set b"
  unfolding spread2_def using set_obj_assign[of "obj_assign [] a" b] set_obj_assign[of "[]" a]
  by auto

lemma rebuild_source_snoc:
  "rebuild_source (rs @ [r]) = spread2 (rebuild_source rs) (output r)"
  by (simp add: rebuild_source_def)

lemma rebuild_session_snoc:
  "rebuild_session (rs @ [r]) =
     (if nodeType r = ''chatInputNode'' then spread2 (rebuild_session rs) (output r)
      else rebuild_session rs)"
  by (simp add: rebuild_session_def)

lemma set_rebuild_source: "set (rebuild_source rs) \<subseteq> (\<Union>r \<in> set rs. set (output r))"
proof (induction rs rule: rev_induct)
  case Nil
  then show ?case by (simp add: rebuild_source_def)
next
  case (snoc r rs)
  then show ?case
    using set_spread2[of "rebuild_source rs" "output r"]
    by (auto simp: rebuild_source_snoc)
qed

lemma set_rebuild_session:
  "set (rebuild_session rs) \<subseteq> (\<Union>r \<in> {r \<in> set rs. nodeType r = ''chatInputNode''}. set (output r))"
proof (induction rs rule: rev_induct)
  case Nil
  then show ?case by (simp add: rebuild_session_def)
next
  case (snoc r rs)
  then show ?case
    using set_spread2[of "rebuild_session rs" "output r"]
    by (auto simp: rebuild_session_snoc)
qed

lemma update_fields:
  "source (updateNodeOutput now n out ty nm s) = as_record (optimizeOutputForStorage (JObj out) 2)"
  "session (updateNodeOutput now n out ty nm s) =
     (if ty = ''chatInputNode'' then as_record (optimizeOutputForStorage (JObj out) 2) else session s)"
  "nodeOutputs (updateNodeOutput now n out ty nm s) =
     obj_set n \<lparr>status = StatusSuccess, output = as_record (optimizeOutputForStorage (JObj out) 2),
                timestamp = now, nodeType = ty, nodeName = nm\<rparr> (nodeOutputs s)"
  by (simp_all add: updateNodeOutput_def Let_def)

lemma clear_fields:
  "nodeOutputs (clearNodeOutput n s) = obj_delete n (nodeOutputs s)"
  "session (clearNodeOutput n s) = rebuild_session (map snd (obj_delete n (nodeOutputs s)))"
  "source (clearNodeOutput n s) = rebuild_source (map snd (obj_delete n (nodeOutputs s)))"
  by (simp_all add: clearNodeOutput_def Let_def)

lemma clear_derivable: "aggregates_derivable (clearNodeOutput n s)"
  by (simp add: aggregates_derivable_def clear_fields)

lemma clearAll_derivable: "aggregates_derivable clearAllOutputs"
  by (simp add: aggregates_derivable_def clearAllOutputs_def rebuild_session_def rebuild_source_def)

lemma reachable_source_fresh:
  "reachable s \<Longrightarrow> set (source s) \<subseteq> (\<Union>r \<in> set (map snd (nodeOutputs s)). set (output r))"
proof (induction rule: reachable.induct)
  case reachable_init
  then show ?case by (simp add: initialState_def)
next
  case (reachable_update s now nodeId out ty nm)
  define r where "r = \<lparr>status = StatusSuccess,
      output = as_record (optimizeOutputForStorage (JObj out) 2),
      timestamp = now, nodeType = ty, nodeName = nm\<rparr>"
  have "(nodeId, r) \<in> set (obj_set nodeId r (nodeOutputs s))" by (rule obj_set_mem)
  then have "r \<in> snd ` set (obj_set nodeId r (nodeOutputs s))" by force
  then have mem: "r \<in> set (map snd (nodeOutputs (updateNodeOutput now nodeId out ty nm s)))"
    by (simp only: update_fields r_def set_map)
  have src: "source (updateNodeOutput now nodeId out ty nm s) = output r"
    by (simp only: update_fields r_def NodeExecutionResult.simps)
  show ?case unfolding src using mem by blast
next
  case (reachable_clear s nodeId)
  then show ?case using set_rebuild_source[of "map snd (obj_delete nodeId (nodeOutputs s))"]
    by (simp add: clear_fields)
next
  case (reachable_clearAll s)
  then show ?case by (simp add: clearAllOutputs_def)
qed

section \<open>Properties of the traversal\<close>

lemma dfs_invI:
  assumes "V \<subseteq> V'" "P \<subseteq> P'"
    and "\<And>v p. v \<in> V' \<Longrightarrow> v \<notin> V \<Longrightarrow> (p, v) \<in> R \<Longrightarrow> p \<in> V' \<and> p \<in> P'"
    and "\<And>v. v \<in> V' \<Longrightarrow> v \<notin> V \<Longrightarrow> (v, n) \<in> R\<^sup>*"
    and "\<And>p. p \<in> P' \<Longrightarrow> p \<notin> P \<Longrightarrow> (\<exists>t \<in> T. (p, t) \<in> R) \<or> (\<exists>v. v \<in> V' \<and> v \<notin> V \<and> (p, v) \<in> R)"
  shows "dfs_inv R n T (P, V) (P', V')"
  unfolding dfs_inv_def fst_conv snd_conv using assms by blast

lemma dfs_invD:
  assumes "dfs_inv R n T (P, V) (P', V')"
  shows "V \<subseteq> V'" "P \<subseteq> P'"
    and "\<And>v p. v \<in> V' \<Longrightarrow> v \<notin> V \<Longrightarrow> (p, v) \<in> R \<Longrightarrow> p \<in> V' \<and> p \<in> P'"
    and "\<And>v. v \<in> V' \<Longrightarrow> v \<notin> V \<Longrightarrow> (v, n) \<in> R\<^sup>*"
    and "\<And>p. p \<in> P' \<Longrightarrow> p \<notin> P \<Longrightarrow> (\<exists>t \<in> T. (p, t) \<in> R) \<or> (\<exists>v. v \<in> V' \<and> v \<notin> V \<and> (p, v) \<in> R)"
  using assms unfolding dfs_inv_def fst_conv snd_conv by blast+

lemma dfs_inv_refl: "dfs_inv R n T st st"
  by (simp add: dfs_inv_def)

lemma dfs_inv_visit:
  assumes nV: "n \<notin> V" and inv: "dfs_inv R n {n} (P, insert n V) (P', V')"
    and preds: "\<And>p. (p, n) \<in> R \<Longrightarrow> p \<in> V' \<and> p \<in> P'"
  shows "dfs_inv R n {} (P, V) (P', V')" and "n \<in> V'"
proof -
  note D = dfs_invD[OF inv]
  show n': "n \<in> V'" using D(1) by simp
  show "dfs_inv R n {} (P, V) (P', V')"
  proof (rule dfs_invI)
    show "V \<subseteq> V'" using D(1) by simp
    show "P \<subseteq> P'" by (rule D(2))
  next
    fix v p assume h: "v \<in> V'" "v \<notin> V" "(p, v) \<in> R"
    show "p \<in> V' \<and> p \<in> P'"
    proof (cases "v = n")
      case True then show ?thesis using preds h(3) by simp
    next
      case False then show ?thesis using D(3)[of v p] h by simp
    qed
  next
    fix v assume h: "v \<in> V'" "v \<notin> V"
    show "(v, n) \<in> R\<^sup>*"
    proof (cases "v = n")
      case True then show ?thesis by simp
    next
      case False then show ?thesis using D(4)[of v] h by simp
    qed
  next
    fix p assume h: "p \<in> P'" "p \<notin> P"
    from D(5)[OF h]
    have "(p, n) \<in> R \<or> (\<exists>v. v \<in> V' \<and> v \<notin> insert n V \<and> (p, v) \<in> R)" by simp
    then have "\<exists>v. v \<in> V' \<and> v \<notin> V \<and> (p, v) \<in> R"
    proof
      assume "(p, n) \<in> R"
      then show ?thesis using n' nV by (intro exI[of _ n]) simp
    next
      assume "\<exists>v. v \<in> V' \<and> v \<notin> insert n V \<and> (p, v) \<in> R"
      then obtain v where "v \<in> V'" "v \<notin> insert n V" "(p, v) \<in> R" by (elim exE conjE)
      then show ?thesis by (intro exI[of _ v]) simp
    qed
    then show "(\<exists>t \<in> {}. (p, t) \<in> R) \<or> (\<exists>v. v \<in> V' \<and> v \<notin> V \<and> (p, v) \<in> R)" by (rule disjI2)
  qed
qed

lemma dfs_inv_edge:
  assumes sn: "(s, n) \<in> R" and inv1: "dfs_inv R s {} (insert s P, V) (P2, V2)" and sV2: "s \<in> V2"
    and inv2: "dfs_inv R n {n} (P2, V2) (P', V')"
  shows "dfs_inv R n {n} (P, V) (P', V')" and "s \<in> V'" and "s \<in> P'"
proof -
  note D1 = dfs_invD[OF inv1]
  note D2 = dfs_invD[OF inv2]
  show "s \<in> V'" using sV2 D2(1) by (rule subsetD[rotated])
  have "s \<in> P2" using D1(2) by simp
  then show "s \<in> P'" using D2(2) by (rule subsetD[rotated])
  show "dfs_inv R n {n} (P, V) (P', V')"
  proof (rule dfs_invI)
    show "V \<subseteq> V'" using D1(1) D2(1) by (rule subset_trans)
    have "P \<subseteq> P2" using D1(2) by simp
    then show "P \<subseteq> P'" using D2(2) by (rule subset_trans)
  next
    fix v p assume h: "v \<in> V'" "v \<notin> V" "(p, v) \<in> R"
    show "p \<in> V' \<and> p \<in> P'"
    proof (cases "v \<in> V2")
      case True
      then have "p \<in> V2 \<and> p \<in> P2" using D1(3)[of v p] h by simp
      then show ?thesis using D2(1) D2(2) by (simp add: subsetD)
    next
      case False then show ?thesis using D2(3)[of v p] h by simp
    qed
  next
    fix v assume h: "v \<in> V'" "v \<notin> V"
    show "(v, n) \<in> R\<^sup>*"
    proof (cases "v \<in> V2")
      case True
      then have "(v, s) \<in> R\<^sup>*" using D1(4)[of v] h by simp
      then show ?thesis using sn by (rule rtrancl_into_rtrancl)
    next
      case False then show ?thesis using D2(4)[of v] h by simp
    qed
  next
    fix p assume h: "p \<in> P'" "p \<notin> P"
    show "(\<exists>t \<in> {n}. (p, t) \<in> R) \<or> (\<exists>v. v \<in> V' \<and> v \<notin> V \<and> (p, v) \<in> R)"
    proof (cases "p \<in> P2")
      case False
      from D2(5)[OF h(1) False] show ?thesis
      proof
        assume "\<exists>t \<in> {n}. (p, t) \<in> R" then show ?thesis by (rule disjI1)
      next
        assume "\<exists>v. v \<in> V' \<and> v \<notin> V2 \<and> (p, v) \<in> R"
        then obtain v where v: "v \<in> V'" "v \<notin> V2" "(p, v) \<in> R" by (elim exE conjE)
        then have "v \<notin> V" using D1(1) by (simp add: subset_iff) (rule notI, simp)
        then show ?thesis using v by (intro disjI2 exI[of _ v]) simp
      qed
    next
      case True
      show ?thesis
      proof (cases "p = s")
        case True then show ?thesis using sn by simp
      next
        case False
        then have "p \<notin> insert s P" using h(2) by simp
        from D1(5)[OF True this]
        obtain v where v: "v \<in> V2" "v \<notin> V" "(p, v) \<in> R" by (simp, elim exE conjE)
        then have "v \<in> V'" using D2(1) by (simp add: subsetD)
        then show ?thesis using v by (intro disjI2 exI[of _ v]) simp
      qed
    qed
  qed
qed


lemma sets_of_pair: "sets_of (P, V) = (set P, set V)"
  by (simp add: sets_of_def)

lemma set_set_add: "set (set_add x xs) = insert x (set xs)"
  by (auto simp: set_add_def)

lemma dfs_establishes_inv:
  "dfs_inv (edge_rel es) n {} (sets_of st) (sets_of (dfs es n st)) \<and> n \<in> set (snd (dfs es n st))"
  "set rest \<subseteq> set es \<Longrightarrow>
     dfs_inv (edge_rel es) n {n} (sets_of st) (sets_of (dfs_forEach es n rest st)) \<and>
     (\<forall>e \<in> set rest. edge_target e = n \<longrightarrow>
        edge_source e \<in> set (snd (dfs_forEach es n rest st)) \<and>
        edge_source e \<in> set (fst (dfs_forEach es n rest st)))"
proof (induction es n st and es n rest st rule: dfs_dfs_forEach.induct)
  case (1 edges nodeId predecessors visited)
  show ?case
  proof (cases "nodeId \<in> set visited")
    case True
    then show ?thesis by (simp add: dfs_inv_refl)
  next
    case False
    obtain P' V' where r: "dfs_forEach edges nodeId edges (predecessors, set_add nodeId visited) = (P', V')"
      by (cases "dfs_forEach edges nodeId edges (predecessors, set_add nodeId visited)")
    have eq: "dfs edges nodeId (predecessors, visited) = (P', V')"
      using False r by simp
    from "1.IH"[OF False subset_refl]
    have inv: "dfs_inv (edge_rel edges) nodeId {nodeId} (set predecessors, insert nodeId (set visited)) (set P', set V')"
      and cl: "\<And>e. e \<in> set edges \<Longrightarrow> edge_target e = nodeId \<Longrightarrow> edge_source e \<in> set V' \<and> edge_source e \<in> set P'"
      unfolding r by (simp_all add: sets_of_pair set_set_add)
    have preds: "\<And>p. (p, nodeId) \<in> edge_rel edges \<Longrightarrow> p \<in> set V' \<and> p \<in> set P'"
      using cl by (auto simp: edge_rel_def)
    from dfs_inv_visit[OF _ inv preds] False
    show ?thesis unfolding eq by (simp add: sets_of_pair)
  qed
next
  case (2 edges nodeId st)
  then show ?case by (simp add: dfs_inv_refl)
next
  case (3 edges nodeId edge rest predecessors visited)
  from "3.prems" have sub: "set rest \<subseteq> set edges" and mem: "edge \<in> set edges" by simp_all
  show ?case
  proof (cases "edge_target edge = nodeId")
    case False
    from "3.IH"(3)[OF False sub] False show ?thesis by simp
  next
    case True
    obtain P2 V2 where r2: "dfs edges (edge_source edge) (set_add (edge_source edge) predecessors, visited) = (P2, V2)"
      by (cases "dfs edges (edge_source edge) (set_add (edge_source edge) predecessors, visited)")
    obtain P' V' where r': "dfs_forEach edges nodeId rest (P2, V2) = (P', V')"
      by (cases "dfs_forEach edges nodeId rest (P2, V2)")
    have eq: "dfs_forEach edges nodeId (edge # rest) (predecessors, visited) = (P', V')"
      using True r2 r' by simp
    from "3.IH"(1)[OF True]
    have inv1: "dfs_inv (edge_rel edges) (edge_source edge) {} (insert (edge_source edge) (set predecessors), set visited) (set P2, set V2)"
      and s2: "edge_source edge \<in> set V2"
      unfolding r2 by (simp_all add: sets_of_pair set_set_add)
    from "3.IH"(2)[OF True sub] 
    have inv2: "dfs_inv (edge_rel edges) nodeId {nodeId} (set P2, set V2) (set P', set V')"
      and cl: "\<And>e. e \<in> set rest \<Longrightarrow> edge_target e = nodeId \<Longrightarrow> edge_source e \<in> set V' \<and> edge_source e \<in> set P'"
      unfolding r2 r' by (simp_all add: sets_of_pair)
    have sn: "(edge_source edge, nodeId) \<in> edge_rel edges"
      using mem True by (force simp: edge_rel_def)
    note E = dfs_inv_edge[OF sn inv1 s2 inv2]
    show ?thesis unfolding eq using E cl by (auto simp: sets_of_pair)
  qed
qed

lemma findPredecessors_set:
  "set (findPredecessors es t) = {s. (s, t) \<in> (edge_rel es)\<^sup>+}"
proof -
  obtain P' V' where r: "dfs es t ([], []) = (P', V')" by (cases "dfs es t ([], [])")
  from dfs_establishes_inv(1)[of es t "([], [])"]
  have inv: "dfs_inv (edge_rel es) t {} ({}, {}) (set P', set V')" and tV: "t \<in> set V'"
    unfolding r by (simp_all add: sets_of_pair)
  note D = dfs_invD[OF inv]
  have closed: "(v, t) \<in> (edge_rel es)\<^sup>* \<Longrightarrow> v \<in> set V'" for v
  proof (induction rule: converse_rtrancl_induct)
    case base then show ?case by (rule tV)
  next
    case (step y z) then show ?case using D(3)[of z y] by simp
  qed
  show ?thesis
  proof (intro set_eqI iffI)
    fix s assume "s \<in> set (findPredecessors es t)"
    then have "s \<in> set P'" unfolding findPredecessors_def r by simp
    from D(5)[OF this] obtain v where v: "v \<in> set V'" "(s, v) \<in> edge_rel es" by auto
    have "(v, t) \<in> (edge_rel es)\<^sup>*" using D(4)[of v] v by simp
    then show "s \<in> {s. (s, t) \<in> (edge_rel es)\<^sup>+}" using v(2) by simp
  next
    fix s assume "s \<in> {s. (s, t) \<in> (edge_rel es)\<^sup>+}"
    then obtain v where v: "(s, v) \<in> edge_rel es" "(v, t) \<in> (edge_rel es)\<^sup>*"
      by (auto dest: tranclD)
    have "v \<in> set V'" using closed[OF v(2)] .
    then have "s \<in> set P'" using D(3)[of v s] v(1) by simp
    then show "s \<in> set (findPredecessors es t)" unfolding findPredecessors_def r by simp
  qed
qed

lemma dfs_distinct:
  "distinct (fst st) \<Longrightarrow> distinct (fst (dfs es n st))"
  "distinct (fst st) \<Longrightarrow> distinct (fst (dfs_forEach es n rest st))"
proof (induction es n st and es n rest st rule: dfs_dfs_forEach.induct)
  case (1 edges nodeId predecessors visited)
  then show ?case by simp
next
  case (2 edges nodeId st)
  then show ?case by simp
next
  case (3 edges nodeId edge rest predecessors visited)
  then show ?case by (simp add: set_add_def)
qed

lemma findPredecessors_distinct: "distinct (findPredecessors es t)"
  unfolding findPredecessors_def by (rule dfs_distinct(1)) simp

section \<open>Compaction\<close>

lemma plain_keys:
  "\<not> is_array_index ''rows''" "\<not> is_array_index ''tags''" "\<not> is_array_index ''n''" "\<not> is_array_index ''id''"
  "\<not> is_array_index ''__proto__''" "\<not> is_array_index ''a''" "\<not> is_array_index ''b''"
  "\<not> is_array_index ''__optimized''" "\<not> is_array_index ''__originalLength''"
  "\<not> is_array_index ''items''"
  by (simp_all add: is_array_index_def is_digit_def)

text \<open>
  C3: the compaction with threshold 2 against the reference definition, on every JSON-like
  value. The two differ on the object \<^verbatim>\<open>{"__proto__": {"a": 1}, "b": 2}\<close>, as \<^verbatim>\<open>JSON.parse\<close>
  reads it: the reference compacts it field by field and keeps both fields, while
  \<^verbatim>\<open>optimizeOutputForStorage\<close> returns an object whose only own field is \<^verbatim>\<open>b\<close>, because
  the assignment \<^verbatim>\<open>result[key] = ...\<close> with the key \<^verbatim>\<open>__proto__\<close> sets the prototype of
  \<^verbatim>\<open>result\<close> and copies no field. Apart from that key the function is the reference: on
  every value in which no object has a key named \<^verbatim>\<open>__proto__\<close> the two are equal; an array
  longer than the threshold whose elements all have the signature of the first one
  becomes the marker object with \<^verbatim>\<open>__optimized\<close> true, \<^verbatim>\<open>__originalLength\<close> the length of
  the array and \<^verbatim>\<open>items\<close> holding exactly the compacted first element; every other array
  is compacted element by element and keeps its length; an object is compacted field by
  field, a field named \<^verbatim>\<open>__proto__\<close> being left out; a scalar is returned unchanged.
\<close>

theorem compact_reference_but_proto_field:
  "optimizeOutputForStorage
     (JObj [(''__proto__'', JObj [(''a'', JNum (Finite 1))]), (''b'', JNum (Finite 2))]) 2
     = JObj [(''b'', JNum (Finite 2))] \<and>
   Compact_spec 2
     (JObj [(''__proto__'', JObj [(''a'', JNum (Finite 1))]), (''b'', JNum (Finite 2))])
     = JObj [(''__proto__'', JObj [(''a'', JNum (Finite 1))]), (''b'', JNum (Finite 2))] \<and>
   wf_json (JObj [(''__proto__'', JObj [(''a'', JNum (Finite 1))]), (''b'', JNum (Finite 2))]) \<and>
   optimizeOutputForStorage
     (JObj [(''__proto__'', JObj [(''a'', JNum (Finite 1))]), (''b'', JNum (Finite 2))]) 2
     \<noteq> Compact_spec 2
         (JObj [(''__proto__'', JObj [(''a'', JNum (Finite 1))]), (''b'', JNum (Finite 2))]) \<and>
   (wf_json v \<and> proto_free v \<longrightarrow> optimizeOutputForStorage v 2 = Compact_spec 2 v) \<and>
   (length (first # rest) > 2 \<and> UniformSchema (first # rest) \<longrightarrow>
      optimizeOutputForStorage (JArr (first # rest)) 2 =
        JObj [(''__optimized'', JBool True),
              (''__originalLength'', JNum (Finite (of_nat (length (first # rest))))),
              (''items'', JArr [optimizeOutputForStorage first 2])]) \<and>
   (\<not> (length a > 2 \<and> UniformSchema a) \<longrightarrow>
      optimizeOutputForStorage (JArr a) 2 = JArr (map (\<lambda>item. optimizeOutputForStorage item 2) a)) \<and>
   (wf_keys (map fst ps) \<longrightarrow>
      optimizeOutputForStorage (JObj ps) 2 =
        JObj (map (\<lambda>(k, x). (k, optimizeOutputForStorage x 2))
                (filter (\<lambda>(k, x). k \<noteq> ''__proto__'') ps))) \<and>
   optimizeOutputForStorage JNull 2 = JNull \<and>
   optimizeOutputForStorage (JBool b) 2 = JBool b \<and>
   optimizeOutputForStorage (JNum n) 2 = JNum n \<and>
   optimizeOutputForStorage (JStr s) 2 = JStr s"
proof (intro conjI impI)
  show "optimizeOutputForStorage
     (JObj [(''__proto__'', JObj [(''a'', JNum (Finite 1))]), (''b'', JNum (Finite 2))]) 2
     = JObj [(''b'', JNum (Finite 2))]"
    by (simp add: assign_property_def)
  show "Compact_spec 2
     (JObj [(''__proto__'', JObj [(''a'', JNum (Finite 1))]), (''b'', JNum (Finite 2))])
     = JObj [(''__proto__'', JObj [(''a'', JNum (Finite 1))]), (''b'', JNum (Finite 2))]"
    by simp
  show "wf_json (JObj [(''__proto__'', JObj [(''a'', JNum (Finite 1))]), (''b'', JNum (Finite 2))])"
    by (simp add: wf_keys_def key_precedes_def plain_keys)
  show "optimizeOutputForStorage
     (JObj [(''__proto__'', JObj [(''a'', JNum (Finite 1))]), (''b'', JNum (Finite 2))]) 2
     \<noteq> Compact_spec 2
         (JObj [(''__proto__'', JObj [(''a'', JNum (Finite 1))]), (''b'', JNum (Finite 2))])"
    by (simp add: assign_property_def)
next
  assume "wf_json v \<and> proto_free v"
  then show "optimizeOutputForStorage v 2 = Compact_spec 2 v" by (simp add: optimize_eq_Compact_spec)
next
  assume "length (first # rest) > 2 \<and> UniformSchema (first # rest)"
  then show "optimizeOutputForStorage (JArr (first # rest)) 2 =
        JObj [(''__optimized'', JBool True),
              (''__originalLength'', JNum (Finite (of_nat (length (first # rest))))),
              (''items'', JArr [optimizeOutputForStorage first 2])]"
    by (simp add: hasUniformSchema_iff)
next
  assume h: "\<not> (length a > 2 \<and> UniformSchema a)"
  show "optimizeOutputForStorage (JArr a) 2 = JArr (map (\<lambda>item. optimizeOutputForStorage item 2) a)"
  proof (cases a)
    case Nil
    then show ?thesis by simp
  next
    case (Cons x xs)
    then show ?thesis using h by (simp add: hasUniformSchema_iff)
  qed
next
  assume "wf_keys (map fst ps)"
  then show "optimizeOutputForStorage (JObj ps) 2 =
        JObj (map (\<lambda>(k, x). (k, optimizeOutputForStorage x 2))
                (filter (\<lambda>(k, x). k \<noteq> ''__proto__'') ps))"
    by (rule optimize_obj)
qed simp_all

text \<open>An output with a uniform array of three rows, a mixed array of three tags and a
  number: the rows are replaced by the marker, the tags and the number are kept.\<close>

theorem compact_reference_but_proto_field_witness:
  "wf_json (JObj [(''rows'', JArr [JObj [(''id'', JNum (Finite 1))], JObj [(''id'', JNum (Finite 2))],
                                   JObj [(''id'', JNum (Finite 3))]]),
                  (''tags'', JArr [JStr ''x'', JNum (Finite 1), JNull]),
                  (''n'', JNum (Finite 5))]) \<and>
   proto_free (JObj [(''rows'', JArr [JObj [(''id'', JNum (Finite 1))], JObj [(''id'', JNum (Finite 2))],
                                   JObj [(''id'', JNum (Finite 3))]]),
                  (''tags'', JArr [JStr ''x'', JNum (Finite 1), JNull]),
                  (''n'', JNum (Finite 5))]) \<and>
   optimizeOutputForStorage
     (JObj [(''rows'', JArr [JObj [(''id'', JNum (Finite 1))], JObj [(''id'', JNum (Finite 2))],
                                   JObj [(''id'', JNum (Finite 3))]]),
                  (''tags'', JArr [JStr ''x'', JNum (Finite 1), JNull]),
                  (''n'', JNum (Finite 5))]) 2 =
   JObj [(''rows'', JObj [(''__optimized'', JBool True), (''__originalLength'', JNum (Finite 3)),
                          (''items'', JArr [JObj [(''id'', JNum (Finite 1))]])]),
         (''tags'', JArr [JStr ''x'', JNum (Finite 1), JNull]),
         (''n'', JNum (Finite 5))] \<and>
   Compact_spec 2
     (JObj [(''rows'', JArr [JObj [(''id'', JNum (Finite 1))], JObj [(''id'', JNum (Finite 2))],
                                   JObj [(''id'', JNum (Finite 3))]]),
                  (''tags'', JArr [JStr ''x'', JNum (Finite 1), JNull]),
                  (''n'', JNum (Finite 5))]) =
   JObj [(''rows'', JObj [(''__optimized'', JBool True), (''__originalLength'', JNum (Finite 3)),
                          (''items'', JArr [JObj [(''id'', JNum (Finite 1))]])]),
         (''tags'', JArr [JStr ''x'', JNum (Finite 1), JNull]),
         (''n'', JNum (Finite 5))] \<and>
   UniformSchema [JObj [(''id'', JNum (Finite 1))], JObj [(''id'', JNum (Finite 2))],
                  JObj [(''id'', JNum (Finite 3))]] \<and>
   optimizeOutputForStorage
     (JArr [JObj [(''id'', JNum (Finite 1))], JObj [(''id'', JNum (Finite 2))],
            JObj [(''id'', JNum (Finite 3))]]) 2 =
   JObj [(''__optimized'', JBool True), (''__originalLength'', JNum (Finite 3)),
         (''items'', JArr [JObj [(''id'', JNum (Finite 1))]])] \<and>
   \<not> UniformSchema [JStr ''x'', JNum (Finite 1), JNull] \<and>
   optimizeOutputForStorage (JArr [JStr ''x'', JNum (Finite 1), JNull]) 2 =
   JArr [JStr ''x'', JNum (Finite 1), JNull] \<and>
   wf_keys [''rows'', ''tags'', ''n'']"
  using compact_reference_but_proto_field
    [where v = "JObj [(''rows'', JArr [JObj [(''id'', JNum (Finite 1))], JObj [(''id'', JNum (Finite 2))],
                                   JObj [(''id'', JNum (Finite 3))]]),
                  (''tags'', JArr [JStr ''x'', JNum (Finite 1), JNull]),
                  (''n'', JNum (Finite 5))]"
       and first = "JObj [(''id'', JNum (Finite 1))]"
       and rest = "[JObj [(''id'', JNum (Finite 2))], JObj [(''id'', JNum (Finite 3))]]"
       and a = "[JStr ''x'', JNum (Finite 1), JNull]"
       and ps = "[(''rows'', JArr [JObj [(''id'', JNum (Finite 1))], JObj [(''id'', JNum (Finite 2))],
                             JObj [(''id'', JNum (Finite 3))]]),
            (''tags'', JArr [JStr ''x'', JNum (Finite 1), JNull]),
            (''n'', JNum (Finite 5))]"]
  by (simp add: wf_keys_def key_precedes_def plain_keys UniformSchema_def hasUniformSchema_def
      assign_property_def)

text \<open>
  C4 as stated: the compaction of a value has the signature of the value with its arrays
  truncated to one representative element. It fails on the array \<^verbatim>\<open>[1, 2, 3]\<close>: the
  compaction is the marker object, whose signature is that of an object, while the
  truncated array \<^verbatim>\<open>[1]\<close> has the signature \<^verbatim>\<open>array:number\<close>.
\<close>

theorem compact_signature_counterexample:
  "getSchemaSignature (optimizeOutputForStorage (JArr [JNum (Finite 1), JNum (Finite 2), JNum (Finite 3)]) 2)
     \<noteq> getSchemaSignature (truncate_arrays (JArr [JNum (Finite 1), JNum (Finite 2), JNum (Finite 3)]))"
  by (simp add: hasUniformSchema_def)

text \<open>
  C4, amended: the shape is kept through the decompaction of the marker. For every
  threshold and every JSON-like value in which no object is itself shaped like a marker
  and no object has a key named \<^verbatim>\<open>__proto__\<close>, the compaction, read with every marker
  replaced by the array of its one representative, has the signature of the value with
  its arrays truncated to one representative element (which is the signature of the value
  itself). The decompaction of a replaced array is the array of the one compacted first
  element, never an array of the original length. Without decompaction the compaction
  itself has that signature when no array that the signature looks at (the value, the
  first element of an array, every field of an object, and so on inside these) is replaced
  by a marker.
\<close>

theorem compact_signature_through_marker:
  "(wf_json v \<and> proto_free v \<and> marker_free v \<longrightarrow>
      getSchemaSignature (decompact_spec (optimizeOutputForStorage v t))
        = getSchemaSignature (truncate_arrays v)) \<and>
   getSchemaSignature (truncate_arrays v) = getSchemaSignature v \<and>
   (length (first # rest) > t \<and> hasUniformSchema (first # rest) \<longrightarrow>
      decompact_spec (optimizeOutputForStorage (JArr (first # rest)) t)
        = JArr [decompact_spec (optimizeOutputForStorage first t)]) \<and>
   (wf_json v \<and> proto_free v \<and> spine_kept t v \<longrightarrow>
      getSchemaSignature (optimizeOutputForStorage v t) = getSchemaSignature (truncate_arrays v))"
proof (intro conjI impI)
  assume "wf_json v \<and> proto_free v \<and> marker_free v"
  then show "getSchemaSignature (decompact_spec (optimizeOutputForStorage v t))
        = getSchemaSignature (truncate_arrays v)"
    by (simp add: sig_decompact_optimize sig_truncate_arrays)
next
  show "getSchemaSignature (truncate_arrays v) = getSchemaSignature v"
    by (rule sig_truncate_arrays)
next
  assume h: "length (first # rest) > t \<and> hasUniformSchema (first # rest)"
  then have "optimizeOutputForStorage (JArr (first # rest)) t =
      JObj [(''__optimized'', JBool True),
            (''__originalLength'', JNum (Finite (of_nat (length (first # rest))))),
            (''items'', JArr [optimizeOutputForStorage first t])]"
    by simp
  then show "decompact_spec (optimizeOutputForStorage (JArr (first # rest)) t)
        = JArr [decompact_spec (optimizeOutputForStorage first t)]"
    by (simp only: decompact_spec.simps marker_item_marker option.case)
next
  assume "wf_json v \<and> proto_free v \<and> spine_kept t v"
  then show "getSchemaSignature (optimizeOutputForStorage v t) = getSchemaSignature (truncate_arrays v)"
    by (simp add: sig_optimize_kept sig_truncate_arrays)
qed

text \<open>An output with three uniform rows and a number: the rows become a marker, whose
  decompaction is the array of the first row. An output whose only long uniform array is
  off the path of the signature.\<close>

theorem compact_signature_through_marker_witness:
  "wf_json (JObj [(''rows'', JArr [JObj [(''id'', JNum (Finite 1))], JObj [(''id'', JNum (Finite 2))],
                                   JObj [(''id'', JNum (Finite 3))]]),
                  (''n'', JNum (Finite 5))]) \<and>
   proto_free (JObj [(''rows'', JArr [JObj [(''id'', JNum (Finite 1))], JObj [(''id'', JNum (Finite 2))],
                                   JObj [(''id'', JNum (Finite 3))]]),
                  (''n'', JNum (Finite 5))]) \<and>
   marker_free (JObj [(''rows'', JArr [JObj [(''id'', JNum (Finite 1))], JObj [(''id'', JNum (Finite 2))],
                                   JObj [(''id'', JNum (Finite 3))]]),
                  (''n'', JNum (Finite 5))]) \<and>
   decompact_spec (optimizeOutputForStorage
      (JObj [(''rows'', JArr [JObj [(''id'', JNum (Finite 1))], JObj [(''id'', JNum (Finite 2))],
                              JObj [(''id'', JNum (Finite 3))]]),
             (''n'', JNum (Finite 5))]) 2)
     = JObj [(''rows'', JArr [JObj [(''id'', JNum (Finite 1))]]), (''n'', JNum (Finite 5))] \<and>
   getSchemaSignature (truncate_arrays
      (JObj [(''rows'', JArr [JObj [(''id'', JNum (Finite 1))], JObj [(''id'', JNum (Finite 2))],
                              JObj [(''id'', JNum (Finite 3))]]),
             (''n'', JNum (Finite 5))]))
     = ''object:{n:number,rows:array:object:{id:number}}'' \<and>
   getSchemaSignature (decompact_spec (optimizeOutputForStorage
      (JObj [(''rows'', JArr [JObj [(''id'', JNum (Finite 1))], JObj [(''id'', JNum (Finite 2))],
                              JObj [(''id'', JNum (Finite 3))]]),
             (''n'', JNum (Finite 5))]) 2))
     = ''object:{n:number,rows:array:object:{id:number}}'' \<and>
   hasUniformSchema [JObj [(''id'', JNum (Finite 1))], JObj [(''id'', JNum (Finite 2))],
                     JObj [(''id'', JNum (Finite 3))]] \<and>
   spine_kept 2 (JObj [(''tags'', JArr [JStr ''x'', JNum (Finite 1), JNull]),
                  (''rows'', JArr [JArr [], JArr [JNum (Finite 1), JNum (Finite 2), JNum (Finite 3)]])]) \<and>
   getSchemaSignature (optimizeOutputForStorage
      (JObj [(''tags'', JArr [JStr ''x'', JNum (Finite 1), JNull]),
             (''rows'', JArr [JArr [], JArr [JNum (Finite 1), JNum (Finite 2), JNum (Finite 3)]])]) 2)
     = getSchemaSignature (truncate_arrays
      (JObj [(''tags'', JArr [JStr ''x'', JNum (Finite 1), JNull]),
             (''rows'', JArr [JArr [], JArr [JNum (Finite 1), JNum (Finite 2), JNum (Finite 3)]])]))"
  using compact_signature_through_marker
    [where v = "JObj [(''rows'', JArr [JObj [(''id'', JNum (Finite 1))], JObj [(''id'', JNum (Finite 2))],
                              JObj [(''id'', JNum (Finite 3))]]),
             (''n'', JNum (Finite 5))]"
       and t = 2
       and first = "JObj [(''id'', JNum (Finite 1))]"
       and rest = "[JObj [(''id'', JNum (Finite 2))], JObj [(''id'', JNum (Finite 3))]]"]
    compact_signature_through_marker
    [where v = "JObj [(''tags'', JArr [JStr ''x'', JNum (Finite 1), JNull]),
             (''rows'', JArr [JArr [], JArr [JNum (Finite 1), JNum (Finite 2), JNum (Finite 3)]])]"
       and t = 2
       and first = "JNum (Finite 1)" and rest = "[JNum (Finite 2), JNum (Finite 3)]"]
  by (simp add: wf_keys_def key_precedes_def plain_keys hasUniformSchema_def marker_item_def
      assign_property_def)

section \<open>Transitive predecessors\<close>

text \<open>
  C2 as stated: on a graph with a cycle that reaches the target backward, the resolution of
  the transitive predecessors raises \<^verbatim>\<open>CyclicGraphError\<close>. On the graph of one node \<open>A\<close>
  with the self-loop \<open>A \<rightarrow> A\<close> and the target \<open>A\<close>, \<^verbatim>\<open>findPredecessors\<close> returns the array
  \<^verbatim>\<open>["A"]\<close> and raises nothing.
\<close>

theorem findPredecessors_cycle_counterexample:
  "(''A'', ''A'') \<in> (edge_rel [\<lparr>edge_source = ''A'', edge_target = ''A''\<rparr>])\<^sup>+ \<and>
   findPredecessors_outcome [\<lparr>edge_source = ''A'', edge_target = ''A''\<rparr>] ''A'' = Inr [''A''] \<and>
   findPredecessors_outcome [\<lparr>edge_source = ''A'', edge_target = ''A''\<rparr>] ''A'' \<noteq> Inl CyclicGraphError"
  by (simp add: edge_rel_def findPredecessors_outcome_def findPredecessors_def set_add_def)

text \<open>
  C2, amended: on every graph, cyclic or not, the resolution of the transitive predecessors
  terminates and returns, without an error, each node once from which the target is
  reachable backward along one or more edges and no other node (the target itself when it
  lies on a cycle).
\<close>

theorem findPredecessors_total_on_every_graph:
  "\<exists>ps. findPredecessors_outcome es t = Inr ps \<and> distinct ps \<and>
        set ps = {s. (s, t) \<in> (edge_rel es)\<^sup>+}"
  by (simp add: findPredecessors_outcome_def findPredecessors_distinct findPredecessors_set)

text \<open>The cycle \<open>A \<rightarrow> B \<rightarrow> A\<close> with a further edge \<open>C \<rightarrow> A\<close>, resolved for \<open>A\<close>.\<close>

theorem findPredecessors_total_witness:
  "findPredecessors_outcome
     [\<lparr>edge_source = ''A'', edge_target = ''B''\<rparr>, \<lparr>edge_source = ''B'', edge_target = ''A''\<rparr>,
      \<lparr>edge_source = ''C'', edge_target = ''A''\<rparr>] ''A'' = Inr [''B'', ''A'', ''C'']"
  using findPredecessors_total_on_every_graph
    [of "[\<lparr>edge_source = ''A'', edge_target = ''B''\<rparr>, \<lparr>edge_source = ''B'', edge_target = ''A''\<rparr>,
          \<lparr>edge_source = ''C'', edge_target = ''A''\<rparr>]" "''A''"]
  by (simp add: findPredecessors_outcome_def findPredecessors_def set_add_def)

section \<open>The aggregates of the store\<close>

lemma store_keys:
  "\<not> key_precedes ''a'' k" "\<not> key_precedes ''b'' k" "\<not> key_precedes ''A'' k" "\<not> key_precedes ''B'' k"
  by (simp_all add: key_precedes_def is_array_index_def is_digit_def)

text \<open>
  C1 as stated: in every state that sequences of \<^verbatim>\<open>updateNodeOutput\<close>, \<^verbatim>\<open>clearNodeOutput\<close> and
  \<^verbatim>\<open>clearAllOutputs\<close> reach from the initial state, \<open>session\<close> and \<open>source\<close> are what a
  replay of \<open>nodeOutputs\<close> gives. After the chat-input node \<open>A\<close> records \<^verbatim>\<open>{a: 1}\<close> and the
  node \<open>B\<close> records \<^verbatim>\<open>{b: 2}\<close>, \<open>source\<close> is \<^verbatim>\<open>{b: 2}\<close> while the replay of the two recorded
  outputs gives \<^verbatim>\<open>{a: 1, b: 2}\<close>.
\<close>

theorem aggregates_not_derivable_counterexample:
  "reachable
     (updateNodeOutput 2 ''B'' [(''b'', JNum (Finite 2))] ''llmModelNode'' ''B''
       (updateNodeOutput 1 ''A'' [(''a'', JNum (Finite 1))] ''chatInputNode'' ''A'' initialState)) \<and>
   source
     (updateNodeOutput 2 ''B'' [(''b'', JNum (Finite 2))] ''llmModelNode'' ''B''
       (updateNodeOutput 1 ''A'' [(''a'', JNum (Finite 1))] ''chatInputNode'' ''A'' initialState))
     = [(''b'', JNum (Finite 2))] \<and>
   rebuild_source (map snd (nodeOutputs
     (updateNodeOutput 2 ''B'' [(''b'', JNum (Finite 2))] ''llmModelNode'' ''B''
       (updateNodeOutput 1 ''A'' [(''a'', JNum (Finite 1))] ''chatInputNode'' ''A'' initialState))))
     = [(''a'', JNum (Finite 1)), (''b'', JNum (Finite 2))] \<and>
   \<not> aggregates_derivable
     (updateNodeOutput 2 ''B'' [(''b'', JNum (Finite 2))] ''llmModelNode'' ''B''
       (updateNodeOutput 1 ''A'' [(''a'', JNum (Finite 1))] ''chatInputNode'' ''A'' initialState))"
proof -
  have r: "reachable
     (updateNodeOutput 2 ''B'' [(''b'', JNum (Finite 2))] ''llmModelNode'' ''B''
       (updateNodeOutput 1 ''A'' [(''a'', JNum (Finite 1))] ''chatInputNode'' ''A'' initialState))"
    by (intro reachable.intros)
  show ?thesis
    using r
    by (simp add: aggregates_derivable_def update_fields initialState_def rebuild_source_def
        spread2_def obj_assign_def store_keys assign_property_def)
qed

text \<open>
  C1, amended: in every reachable state each property of \<open>source\<close> is a property of the
  output recorded for some node, so \<open>source\<close> never holds a stale key. After
  \<^verbatim>\<open>clearNodeOutput\<close> and after \<^verbatim>\<open>clearAllOutputs\<close> both aggregates are what a replay of
  \<open>nodeOutputs\<close> gives (\<open>session\<close> the merge of the chat-input nodes' outputs, \<open>source\<close>
  the merge of all outputs, the later output winning on a key), and hold properties of the
  remaining outputs only. After \<^verbatim>\<open>updateNodeOutput\<close>, \<open>source\<close> is exactly the compacted
  output just stored for the node, not the merge, and \<open>session\<close> is that output when the
  node type is \<^verbatim>\<open>chatInputNode\<close> and is left as it was otherwise.
\<close>

theorem aggregates_after_each_operation:
  "(reachable s \<longrightarrow> set (source s) \<subseteq> (\<Union>r \<in> set (map snd (nodeOutputs s)). set (output r))) \<and>
   aggregates_derivable (clearNodeOutput nodeId s) \<and>
   set (source (clearNodeOutput nodeId s))
     \<subseteq> (\<Union>r \<in> set (map snd (nodeOutputs (clearNodeOutput nodeId s))). set (output r)) \<and>
   set (session (clearNodeOutput nodeId s))
     \<subseteq> (\<Union>r \<in> {r \<in> set (map snd (nodeOutputs (clearNodeOutput nodeId s))).
                   nodeType r = ''chatInputNode''}. set (output r)) \<and>
   aggregates_derivable clearAllOutputs \<and>
   source (updateNodeOutput now nodeId out ty nm s)
     = as_record (optimizeOutputForStorage (JObj out) 2) \<and>
   session (updateNodeOutput now nodeId out ty nm s)
     = (if ty = ''chatInputNode'' then as_record (optimizeOutputForStorage (JObj out) 2)
        else session s) \<and>
   map_of (nodeOutputs (updateNodeOutput now nodeId out ty nm s)) nodeId
     = Some \<lparr>status = StatusSuccess, output = as_record (optimizeOutputForStorage (JObj out) 2),
              timestamp = now, nodeType = ty, nodeName = nm\<rparr>"
proof (intro conjI impI)
  show "reachable s \<Longrightarrow> set (source s) \<subseteq> (\<Union>r \<in> set (map snd (nodeOutputs s)). set (output r))"
    by (rule reachable_source_fresh)
  show "aggregates_derivable (clearNodeOutput nodeId s)" by (rule clear_derivable)
  show "aggregates_derivable clearAllOutputs" by (rule clearAll_derivable)
  show "set (source (clearNodeOutput nodeId s))
     \<subseteq> (\<Union>r \<in> set (map snd (nodeOutputs (clearNodeOutput nodeId s))). set (output r))"
    unfolding clear_fields by (rule set_rebuild_source)
  show "set (session (clearNodeOutput nodeId s))
     \<subseteq> (\<Union>r \<in> {r \<in> set (map snd (nodeOutputs (clearNodeOutput nodeId s))).
                   nodeType r = ''chatInputNode''}. set (output r))"
    unfolding clear_fields by (rule set_rebuild_session)
  show "source (updateNodeOutput now nodeId out ty nm s)
     = as_record (optimizeOutputForStorage (JObj out) 2)"
    by (rule update_fields)
  show "session (updateNodeOutput now nodeId out ty nm s)
     = (if ty = ''chatInputNode'' then as_record (optimizeOutputForStorage (JObj out) 2)
        else session s)"
    by (rule update_fields)
  show "map_of (nodeOutputs (updateNodeOutput now nodeId out ty nm s)) nodeId
     = Some \<lparr>status = StatusSuccess, output = as_record (optimizeOutputForStorage (JObj out) 2),
              timestamp = now, nodeType = ty, nodeName = nm\<rparr>"
    unfolding update_fields map_of_obj_set by simp
qed

text \<open>The state after the chat-input node \<open>A\<close> has recorded \<^verbatim>\<open>{a: 1}\<close>: clearing the absent
  node \<open>B\<close> rebuilds both aggregates to \<^verbatim>\<open>{a: 1}\<close>; recording \<^verbatim>\<open>{b: 2}\<close> for \<open>B\<close> makes
  \<open>source\<close> \<^verbatim>\<open>{b: 2}\<close> and leaves \<open>session\<close>.\<close>

theorem aggregates_after_each_operation_witness:
  "reachable (updateNodeOutput 1 ''A'' [(''a'', JNum (Finite 1))] ''chatInputNode'' ''A'' initialState) \<and>
   source (clearNodeOutput ''B''
     (updateNodeOutput 1 ''A'' [(''a'', JNum (Finite 1))] ''chatInputNode'' ''A'' initialState))
     = [(''a'', JNum (Finite 1))] \<and>
   session (clearNodeOutput ''B''
     (updateNodeOutput 1 ''A'' [(''a'', JNum (Finite 1))] ''chatInputNode'' ''A'' initialState))
     = [(''a'', JNum (Finite 1))] \<and>
   source (updateNodeOutput 2 ''B'' [(''b'', JNum (Finite 2))] ''llmModelNode'' ''B''
     (updateNodeOutput 1 ''A'' [(''a'', JNum (Finite 1))] ''chatInputNode'' ''A'' initialState))
     = [(''b'', JNum (Finite 2))] \<and>
   session (updateNodeOutput 2 ''B'' [(''b'', JNum (Finite 2))] ''llmModelNode'' ''B''
     (updateNodeOutput 1 ''A'' [(''a'', JNum (Finite 1))] ''chatInputNode'' ''A'' initialState))
     = [(''a'', JNum (Finite 1))]"
proof -
  have r: "reachable (updateNodeOutput 1 ''A'' [(''a'', JNum (Finite 1))] ''chatInputNode'' ''A'' initialState)"
    by (intro reachable.intros)
  show ?thesis
    using r aggregates_after_each_operation
      [of "updateNodeOutput 1 ''A'' [(''a'', JNum (Finite 1))] ''chatInputNode'' ''A'' initialState"
          "''B''" 2 "[(''b'', JNum (Finite 2))]" "''llmModelNode''" "''B''"]
    by (simp add: aggregates_derivable_def update_fields clear_fields initialState_def
        rebuild_source_def rebuild_session_def spread2_def obj_assign_def obj_delete_def store_keys
        assign_property_def)
qed

text \<open>
  C5 as stated: for a node with a recorded result, \<^verbatim>\<open>clearNodeOutput\<close> followed by
  \<^verbatim>\<open>updateNodeOutput\<close> with the same output, type and name gives back the \<open>session\<close> and
  \<open>source\<close> of before. After \<open>A\<close> records \<^verbatim>\<open>{a: 1}\<close> and then \<open>B\<close> records \<^verbatim>\<open>{b: 2}\<close>,
  \<open>source\<close> is \<^verbatim>\<open>{b: 2}\<close>; clearing \<open>A\<close> and recording \<^verbatim>\<open>{a: 1}\<close> for \<open>A\<close> again makes it
  \<^verbatim>\<open>{a: 1}\<close>.
\<close>

theorem clear_then_record_counterexample:
  "reachable
     (updateNodeOutput 2 ''B'' [(''b'', JNum (Finite 2))] ''llmModelNode'' ''B''
       (updateNodeOutput 1 ''A'' [(''a'', JNum (Finite 1))] ''chatInputNode'' ''A'' initialState)) \<and>
   map_of (nodeOutputs
     (updateNodeOutput 2 ''B'' [(''b'', JNum (Finite 2))] ''llmModelNode'' ''B''
       (updateNodeOutput 1 ''A'' [(''a'', JNum (Finite 1))] ''chatInputNode'' ''A'' initialState))) ''A''
     = Some \<lparr>status = StatusSuccess, output = [(''a'', JNum (Finite 1))], timestamp = 1,
              nodeType = ''chatInputNode'', nodeName = ''A''\<rparr> \<and>
   source
     (updateNodeOutput 2 ''B'' [(''b'', JNum (Finite 2))] ''llmModelNode'' ''B''
       (updateNodeOutput 1 ''A'' [(''a'', JNum (Finite 1))] ''chatInputNode'' ''A'' initialState))
     = [(''b'', JNum (Finite 2))] \<and>
   source
     (updateNodeOutput 3 ''A'' [(''a'', JNum (Finite 1))] ''chatInputNode'' ''A''
       (clearNodeOutput ''A''
         (updateNodeOutput 2 ''B'' [(''b'', JNum (Finite 2))] ''llmModelNode'' ''B''
           (updateNodeOutput 1 ''A'' [(''a'', JNum (Finite 1))] ''chatInputNode'' ''A'' initialState))))
     = [(''a'', JNum (Finite 1))] \<and>
   source
     (updateNodeOutput 3 ''A'' [(''a'', JNum (Finite 1))] ''chatInputNode'' ''A''
       (clearNodeOutput ''A''
         (updateNodeOutput 2 ''B'' [(''b'', JNum (Finite 2))] ''llmModelNode'' ''B''
           (updateNodeOutput 1 ''A'' [(''a'', JNum (Finite 1))] ''chatInputNode'' ''A'' initialState))))
     \<noteq> source
         (updateNodeOutput 2 ''B'' [(''b'', JNum (Finite 2))] ''llmModelNode'' ''B''
           (updateNodeOutput 1 ''A'' [(''a'', JNum (Finite 1))] ''chatInputNode'' ''A'' initialState))"
proof -
  have r: "reachable
     (updateNodeOutput 2 ''B'' [(''b'', JNum (Finite 2))] ''llmModelNode'' ''B''
       (updateNodeOutput 1 ''A'' [(''a'', JNum (Finite 1))] ''chatInputNode'' ''A'' initialState))"
    by (intro reachable.intros)
  show ?thesis
    using r by (simp add: update_fields initialState_def store_keys assign_property_def)
qed

text \<open>
  C5, amended: for a node whose recorded result holds the compaction of \<open>out\<close> and the type
  \<open>ty\<close>, \<^verbatim>\<open>clearNodeOutput\<close> followed by \<^verbatim>\<open>updateNodeOutput\<close> with \<open>out\<close> and \<open>ty\<close> makes
  \<open>source\<close> the stored output of the node, and \<open>session\<close> that output when the type is
  \<^verbatim>\<open>chatInputNode\<close> and the merge of the other chat-input nodes' outputs otherwise. So the
  aggregates of before are given back exactly when \<open>source\<close> was the stored output of the
  node (the node was the last one recorded) and \<open>session\<close> was, for a chat-input node, that
  output, and for any other node the merge of the other chat-input nodes' outputs.
\<close>

theorem clear_then_record_aggregates:
  assumes "map_of (nodeOutputs s) nodeId = Some r"
    and "output r = as_record (optimizeOutputForStorage (JObj out) 2)"
    and "nodeType r = ty"
  shows "source (updateNodeOutput now nodeId out ty nm (clearNodeOutput nodeId s)) = output r \<and>
         session (updateNodeOutput now nodeId out ty nm (clearNodeOutput nodeId s))
           = (if ty = ''chatInputNode'' then output r
              else rebuild_session (map snd (obj_delete nodeId (nodeOutputs s)))) \<and>
         ((source (updateNodeOutput now nodeId out ty nm (clearNodeOutput nodeId s)) = source s \<and>
           session (updateNodeOutput now nodeId out ty nm (clearNodeOutput nodeId s)) = session s)
          = (source s = output r \<and>
             session s = (if ty = ''chatInputNode'' then output r
                          else rebuild_session (map snd (obj_delete nodeId (nodeOutputs s))))))"
  using assms(2) by (auto simp: update_fields clear_fields)

text \<open>The chat-input node \<open>A\<close>, the only node recorded, cleared and recorded again.\<close>

theorem clear_then_record_aggregates_witness:
  "map_of (nodeOutputs (updateNodeOutput 1 ''A'' [(''a'', JNum (Finite 1))] ''chatInputNode'' ''A'' initialState)) ''A''
     = Some \<lparr>status = StatusSuccess, output = [(''a'', JNum (Finite 1))], timestamp = 1,
              nodeType = ''chatInputNode'', nodeName = ''A''\<rparr> \<and>
   source (updateNodeOutput 3 ''A'' [(''a'', JNum (Finite 1))] ''chatInputNode'' ''A''
            (clearNodeOutput ''A''
              (updateNodeOutput 1 ''A'' [(''a'', JNum (Finite 1))] ''chatInputNode'' ''A'' initialState)))
     = source (updateNodeOutput 1 ''A'' [(''a'', JNum (Finite 1))] ''chatInputNode'' ''A'' initialState) \<and>
   session (updateNodeOutput 3 ''A'' [(''a'', JNum (Finite 1))] ''chatInputNode'' ''A''
            (clearNodeOutput ''A''
              (updateNodeOutput 1 ''A'' [(''a'', JNum (Finite 1))] ''chatInputNode'' ''A'' initialState)))
     = session (updateNodeOutput 1 ''A'' [(''a'', JNum (Finite 1))] ''chatInputNode'' ''A'' initialState)"
proof -
  have m: "map_of (nodeOutputs (updateNodeOutput 1 ''A'' [(''a'', JNum (Finite 1))] ''chatInputNode'' ''A'' initialState)) ''A''
     = Some \<lparr>status = StatusSuccess, output = [(''a'', JNum (Finite 1))], timestamp = 1,
              nodeType = ''chatInputNode'', nodeName = ''A''\<rparr>"
    by (simp add: update_fields initialState_def assign_property_def)
  show ?thesis
    using m clear_then_record_aggregates[OF m, of "[(''a'', JNum (Finite 1))]" "''chatInputNode''" 3 "''A''"]
    by (simp add: update_fields initialState_def assign_property_def)
qed

section \<open>Typed parsing\<close>

lemma trim_empty_iff: "trim s = [] \<longleftrightarrow> (\<forall>c \<in> set s. is_white_space c)"
proof
  assume "trim s = []"
  then have all: "\<forall>x \<in> set (dropWhile is_white_space s). is_white_space x"
    by (simp add: trim_def dropWhile_eq_Nil_conv)
  have "dropWhile is_white_space s = []"
  proof (rule ccontr)
    assume ne: "dropWhile is_white_space s \<noteq> []"
    then have "\<not> is_white_space (hd (dropWhile is_white_space s))" by (rule hd_dropWhile)
    moreover have "hd (dropWhile is_white_space s) \<in> set (dropWhile is_white_space s)"
      using ne by (rule hd_in_set)
    ultimately show False using all by blast
  qed
  then show "\<forall>c \<in> set s. is_white_space c" by (simp add: dropWhile_eq_Nil_conv)
next
  assume "\<forall>c \<in> set s. is_white_space c"
  then show "trim s = []" by (auto simp: trim_def dest: set_dropWhileD)
qed

lemma is_white_space_lower: "is_white_space (lower_char c) = is_white_space c"
  by (auto simp: lower_char_def is_white_space_def)

lemma trim_lower_empty: "trim (toLowerCase s) = [] \<longleftrightarrow> trim s = []"
  by (simp add: trim_empty_iff toLowerCase_def is_white_space_lower)

lemma lower_not_blank:
  "trim (toLowerCase v) \<noteq> [] \<Longrightarrow> \<not> (v = [] \<or> trim v = [])"
  using trim_lower_empty[of v] by (auto simp: trim_def)

text \<open>
  C9 as stated: for the declared type \<^verbatim>\<open>number\<close> a non-numeric text is returned unchanged.
  It fails on the text \<^verbatim>\<open>12abc\<close>, which is not a number: \<^verbatim>\<open>parseFloat\<close> reads its prefix
  \<^verbatim>\<open>12\<close>, the result is not \<^verbatim>\<open>NaN\<close>, and \<^verbatim>\<open>parseInputValue\<close> returns the number 12.
\<close>

theorem parseInputValue_number_prefix_counterexample:
  "parseFloat_table ''12abc'' = Finite 12 \<and>
   parseInputValue JSON_parse_table parseFloat_table ''12abc'' SNumber = Inr (JNum (Finite 12))"
  by (simp add: parseInputValue_def parseInputValue_try_def parseFloat_table_def trim_def
      is_white_space_def Let_def)

text \<open>
  C9, amended: \<^verbatim>\<open>parseInputValue\<close> follows the declared type and fails softly. For the type
  \<^verbatim>\<open>boolean\<close> the texts \<^verbatim>\<open>true\<close>, \<^verbatim>\<open>1\<close>, \<^verbatim>\<open>yes\<close> in any letter case (and between blanks)
  give \<^verbatim>\<open>true\<close>, the texts \<^verbatim>\<open>false\<close>, \<^verbatim>\<open>0\<close>, \<^verbatim>\<open>no\<close> give \<^verbatim>\<open>false\<close>, and every other ASCII
  text is returned as it is: \<^verbatim>\<open>"true"\<close> gives \<^verbatim>\<open>true\<close> and \<^verbatim>\<open>"nah"\<close> gives the string
  \<^verbatim>\<open>"nah"\<close>. For the type \<^verbatim>\<open>number\<close> a text on which \<^verbatim>\<open>parseFloat\<close> gives \<^verbatim>\<open>NaN\<close> is returned
  as it is, and a text that is not blank and on which \<^verbatim>\<open>parseFloat\<close> gives a number, be it
  only for a prefix of the text, gives that number. For the types \<^verbatim>\<open>object\<close> and \<^verbatim>\<open>array\<close> a
  text on which \<^verbatim>\<open>JSON.parse\<close> throws is returned as it is. For every type the function
  returns a value and throws nothing. For the type \<^verbatim>\<open>any\<close> the chain (structured literal,
  then number, then boolean, then the raw string) raises nothing even inside the \<^verbatim>\<open>try\<close>
  block.
\<close>

theorem parseInputValue_type_directed:
  "(trim (toLowerCase v) \<in> {''true'', ''1'', ''yes''}
      \<longrightarrow> parseInputValue JSON_parse parseFloat' v SBoolean = Inr (JBool True)) \<and>
   (trim (toLowerCase v) \<in> {''false'', ''0'', ''no''}
      \<longrightarrow> parseInputValue JSON_parse parseFloat' v SBoolean = Inr (JBool False)) \<and>
   (is_ascii v \<and> trim (toLowerCase v) \<notin> {''true'', ''1'', ''yes'', ''false'', ''0'', ''no''}
      \<longrightarrow> parseInputValue JSON_parse parseFloat' v SBoolean = Inr (JStr v)) \<and>
   parseInputValue JSON_parse parseFloat' ''true'' SBoolean = Inr (JBool True) \<and>
   parseInputValue JSON_parse parseFloat' ''nah'' SBoolean = Inr (JStr ''nah'') \<and>
   (parseFloat' v = NaN \<longrightarrow> parseInputValue JSON_parse parseFloat' v SNumber = Inr (JStr v)) \<and>
   (is_ascii v \<and> trim v \<noteq> [] \<and> parseFloat' v \<noteq> NaN \<longrightarrow>
      parseInputValue JSON_parse parseFloat' v SNumber = Inr (JNum (parseFloat' v))) \<and>
   (JSON_parse v = None \<longrightarrow>
      parseInputValue JSON_parse parseFloat' v SObject = Inr (JStr v) \<and>
      parseInputValue JSON_parse parseFloat' v SArray = Inr (JStr v)) \<and>
   (\<exists>r. parseInputValue JSON_parse parseFloat' v ty = Inr r) \<and>
   (\<exists>r. parseInputValue_try JSON_parse parseFloat' v SAny = Inr r) \<and>
   (is_ascii v \<longrightarrow>
      parseInputValue JSON_parse parseFloat' v SAny =
        (if trim v = [] then Inr (JStr v)
         else case JSON_parse v of
                Some j \<Rightarrow> Inr j
              | None \<Rightarrow>
                  if parseFloat' v \<noteq> NaN then Inr (JNum (parseFloat' v))
                  else if trim (toLowerCase v) = ''true'' then Inr (JBool True)
                  else if trim (toLowerCase v) = ''false'' then Inr (JBool False)
                  else Inr (JStr v)))"
proof (intro conjI impI)
  assume "trim (toLowerCase v) \<in> {''true'', ''1'', ''yes''}"
  then show "parseInputValue JSON_parse parseFloat' v SBoolean = Inr (JBool True)"
    using lower_not_blank[of v]
    by (auto simp: parseInputValue_def parseInputValue_try_def Let_def)
next
  assume "trim (toLowerCase v) \<in> {''false'', ''0'', ''no''}"
  then show "parseInputValue JSON_parse parseFloat' v SBoolean = Inr (JBool False)"
    using lower_not_blank[of v]
    by (auto simp: parseInputValue_def parseInputValue_try_def Let_def)
next
  assume "is_ascii v \<and> trim (toLowerCase v) \<notin> {''true'', ''1'', ''yes'', ''false'', ''0'', ''no''}"
  then show "parseInputValue JSON_parse parseFloat' v SBoolean = Inr (JStr v)"
    by (auto simp: parseInputValue_def parseInputValue_try_def Let_def)
next
  show "parseInputValue JSON_parse parseFloat' ''true'' SBoolean = Inr (JBool True)"
    by (simp add: parseInputValue_def parseInputValue_try_def Let_def trim_def toLowerCase_def
        lower_char_def is_white_space_def)
  show "parseInputValue JSON_parse parseFloat' ''nah'' SBoolean = Inr (JStr ''nah'')"
    by (simp add: parseInputValue_def parseInputValue_try_def Let_def trim_def toLowerCase_def
        lower_char_def is_white_space_def)
next
  assume "parseFloat' v = NaN"
  then show "parseInputValue JSON_parse parseFloat' v SNumber = Inr (JStr v)"
    by (simp add: parseInputValue_def parseInputValue_try_def Let_def)
next
  assume "is_ascii v \<and> trim v \<noteq> [] \<and> parseFloat' v \<noteq> NaN"
  then show "parseInputValue JSON_parse parseFloat' v SNumber = Inr (JNum (parseFloat' v))"
    by (auto simp: parseInputValue_def parseInputValue_try_def Let_def trim_def)
next
  assume "JSON_parse v = None"
  then show "parseInputValue JSON_parse parseFloat' v SObject = Inr (JStr v)"
    and "parseInputValue JSON_parse parseFloat' v SArray = Inr (JStr v)"
    by (simp_all add: parseInputValue_def parseInputValue_try_def)
next
  show "\<exists>r. parseInputValue JSON_parse parseFloat' v ty = Inr r"
    by (simp add: parseInputValue_def split: sum.split)
  show "\<exists>r. parseInputValue_try JSON_parse parseFloat' v SAny = Inr r"
    by (simp add: parseInputValue_try_def Let_def split: option.split)
next
  have e: "v = [] \<Longrightarrow> trim v = []" by (simp add: trim_def)
  show "parseInputValue JSON_parse parseFloat' v SAny =
        (if trim v = [] then Inr (JStr v)
         else case JSON_parse v of
                Some j \<Rightarrow> Inr j
              | None \<Rightarrow>
                  if parseFloat' v \<noteq> NaN then Inr (JNum (parseFloat' v))
                  else if trim (toLowerCase v) = ''true'' then Inr (JBool True)
                  else if trim (toLowerCase v) = ''false'' then Inr (JBool False)
                  else Inr (JStr v))"
    using e by (auto simp add: parseInputValue_def parseInputValue_try_def Let_def split: option.split)
qed

theorem parseInputValue_type_directed_witness:
  "trim (toLowerCase '' YES '') = ''yes'' \<and>
   parseInputValue JSON_parse_table parseFloat_table '' YES '' SBoolean = Inr (JBool True) \<and>
   trim (toLowerCase ''No'') = ''no'' \<and>
   parseInputValue JSON_parse_table parseFloat_table ''No'' SBoolean = Inr (JBool False) \<and>
   is_ascii ''maybe'' \<and>
   parseInputValue JSON_parse_table parseFloat_table ''maybe'' SBoolean = Inr (JStr ''maybe'') \<and>
   parseFloat_table ''abc'' = NaN \<and>
   parseInputValue JSON_parse_table parseFloat_table ''abc'' SNumber = Inr (JStr ''abc'') \<and>
   is_ascii ''1'' \<and> trim ''1'' \<noteq> [] \<and> parseFloat_table ''1'' \<noteq> NaN \<and>
   parseInputValue JSON_parse_table parseFloat_table ''1'' SNumber = Inr (JNum (Finite 1)) \<and>
   JSON_parse_table ''{broken'' = None \<and>
   parseInputValue JSON_parse_table parseFloat_table ''{broken'' SObject = Inr (JStr ''{broken'') \<and>
   parseInputValue JSON_parse_table parseFloat_table ''{broken'' SArray = Inr (JStr ''{broken'') \<and>
   is_ascii ''{broken'' \<and>
   parseInputValue JSON_parse_table parseFloat_table ''{broken'' SAny = Inr (JStr ''{broken'')"
  using parseInputValue_type_directed[of "'' YES ''" JSON_parse_table parseFloat_table]
    parseInputValue_type_directed[of "''No''" JSON_parse_table parseFloat_table]
    parseInputValue_type_directed[of "''maybe''" JSON_parse_table parseFloat_table]
    parseInputValue_type_directed[of "''abc''" JSON_parse_table parseFloat_table]
    parseInputValue_type_directed[of "''1''" JSON_parse_table parseFloat_table]
    parseInputValue_type_directed[of "''{broken''" JSON_parse_table parseFloat_table]
  by (simp add: JSON_parse_table_def parseFloat_table_def trim_def toLowerCase_def
      lower_char_def is_white_space_def is_ascii_def)

text \<open>
  C10: the boolean step of the chain for the type \<^verbatim>\<open>any\<close> knows only \<^verbatim>\<open>true\<close> and
  \<^verbatim>\<open>false\<close> (in any letter case, on ASCII text), and is reached when \<^verbatim>\<open>JSON.parse\<close> throws
  and \<^verbatim>\<open>parseFloat\<close> gives \<^verbatim>\<open>NaN\<close>. So \<^verbatim>\<open>yes\<close> and \<^verbatim>\<open>no\<close>, which the type \<^verbatim>\<open>boolean\<close> reads
  as \<^verbatim>\<open>true\<close> and \<^verbatim>\<open>false\<close>, are returned as the raw strings under the type \<^verbatim>\<open>any\<close>.
\<close>

theorem any_chain_boolean_step:
  "(is_ascii v \<and> JSON_parse v = None \<and> parseFloat' v = NaN \<longrightarrow>
      parseInputValue JSON_parse parseFloat' v SAny =
        (if trim (toLowerCase v) = ''true'' then Inr (JBool True)
         else if trim (toLowerCase v) = ''false'' then Inr (JBool False)
         else Inr (JStr v))) \<and>
   (JSON_parse ''yes'' = None \<and> parseFloat' ''yes'' = NaN \<longrightarrow>
      parseInputValue JSON_parse parseFloat' ''yes'' SBoolean = Inr (JBool True) \<and>
      parseInputValue JSON_parse parseFloat' ''yes'' SAny = Inr (JStr ''yes'')) \<and>
   (JSON_parse ''no'' = None \<and> parseFloat' ''no'' = NaN \<longrightarrow>
      parseInputValue JSON_parse parseFloat' ''no'' SBoolean = Inr (JBool False) \<and>
      parseInputValue JSON_parse parseFloat' ''no'' SAny = Inr (JStr ''no''))"
proof (intro conjI impI)
  assume h: "is_ascii v \<and> JSON_parse v = None \<and> parseFloat' v = NaN"
  show "parseInputValue JSON_parse parseFloat' v SAny =
        (if trim (toLowerCase v) = ''true'' then Inr (JBool True)
         else if trim (toLowerCase v) = ''false'' then Inr (JBool False)
         else Inr (JStr v))"
  proof (cases "v = [] \<or> trim v = []")
    case True
    then have "trim (toLowerCase v) = []"
      using trim_lower_empty[of v] by (auto simp: toLowerCase_def trim_def)
    then show ?thesis using True by (simp add: parseInputValue_def)
  next
    case False
    then show ?thesis using h
      by (simp add: parseInputValue_def parseInputValue_try_def Let_def)
  qed
next
  assume "JSON_parse ''yes'' = None \<and> parseFloat' ''yes'' = NaN"
  then show "parseInputValue JSON_parse parseFloat' ''yes'' SBoolean = Inr (JBool True)"
    and "parseInputValue JSON_parse parseFloat' ''yes'' SAny = Inr (JStr ''yes'')"
    by (simp_all add: parseInputValue_def parseInputValue_try_def Let_def trim_def toLowerCase_def
        lower_char_def is_white_space_def)
next
  assume "JSON_parse ''no'' = None \<and> parseFloat' ''no'' = NaN"
  then show "parseInputValue JSON_parse parseFloat' ''no'' SBoolean = Inr (JBool False)"
    and "parseInputValue JSON_parse parseFloat' ''no'' SAny = Inr (JStr ''no'')"
    by (simp_all add: parseInputValue_def parseInputValue_try_def Let_def trim_def toLowerCase_def
        lower_char_def is_white_space_def)
qed

theorem any_chain_boolean_step_witness:
  "JSON_parse_table ''yes'' = None \<and> parseFloat_table ''yes'' = NaN \<and>
   parseInputValue JSON_parse_table parseFloat_table ''yes'' SBoolean = Inr (JBool True) \<and>
   parseInputValue JSON_parse_table parseFloat_table ''yes'' SAny = Inr (JStr ''yes'') \<and>
   JSON_parse_table ''no'' = None \<and> parseFloat_table ''no'' = NaN \<and>
   parseInputValue JSON_parse_table parseFloat_table ''no'' SBoolean = Inr (JBool False) \<and>
   parseInputValue JSON_parse_table parseFloat_table ''no'' SAny = Inr (JStr ''no'') \<and>
   is_ascii ''TRUE'' \<and> JSON_parse_table ''TRUE'' = None \<and> parseFloat_table ''TRUE'' = NaN \<and>
   parseInputValue JSON_parse_table parseFloat_table ''TRUE'' SAny = Inr (JBool True)"
  using any_chain_boolean_step[of "''TRUE''" JSON_parse_table parseFloat_table]
  by (simp add: JSON_parse_table_def parseFloat_table_def trim_def toLowerCase_def
      lower_char_def is_white_space_def is_ascii_def)

section \<open>Available data\<close>

lemma map_of_collect_aux:
  "map_of (foldl (\<lambda>acc p. case map_of outs p of Some r \<Rightarrow> obj_set p (g r) acc | None \<Rightarrow> acc)
             acc0 ids) k
   = (if k \<in> set ids \<and> map_of outs k \<noteq> None then map_option g (map_of outs k)
      else map_of acc0 k)"
proof (induction ids arbitrary: acc0)
  case Nil
  then show ?case by simp
next
  case (Cons p ids)
  show ?case
    by (cases "map_of outs p") (auto simp: Cons.IH map_of_obj_set)
qed

lemma map_of_collectOutputs:
  "map_of (collectOutputs outs ids) k
   = (if k \<in> set ids then map_option (\<lambda>r. filterOutput (JObj (output r))) (map_of outs k) else None)"
  unfolding collectOutputs_def map_of_collect_aux by auto



lemma keys_collectOutputs:
  "set (map fst (collectOutputs outs ids)) = {k \<in> set ids. map_of outs k \<noteq> None}"
proof -
  have "dom (map_of (collectOutputs outs ids)) = {k \<in> set ids. map_of outs k \<noteq> None}"
    by (auto simp: map_of_collectOutputs dom_def)
  then show ?thesis by (simp add: dom_map_of_conv_image_fst)
qed




lemma collectOutputs_empty:
  "\<forall>p \<in> set ids. map_of outs p = None \<Longrightarrow> collectOutputs outs ids = []"
proof -
  assume "\<forall>p \<in> set ids. map_of outs p = None"
  then have "set (map fst (collectOutputs outs ids)) = {}"
    unfolding keys_collectOutputs by auto
  then show ?thesis by simp
qed




lemma predecessorIds_set:
  "set (predecessorIds edges n) = {s. s \<noteq> n \<and> (s, n) \<in> (edge_rel edges)\<^sup>+}"
  by (auto simp: predecessorIds_def findPredecessors_set)

lemma directPredecessors_edges:
  "p \<in> set (directPredecessors nodes edges n) \<Longrightarrow> (p, n) \<in> edge_rel edges"
  by (auto simp: directPredecessors_def edge_rel_def Let_def)

lemma directPredecessors_found:
  "p \<in> set (directPredecessors nodes edges n) \<Longrightarrow> p \<in> set (findPredecessors edges n)"
  using directPredecessors_edges[of p nodes edges n] by (auto simp: findPredecessors_set)

lemma directPredecessors_other:
  "p \<in> set (directPredecessors nodes edges n) \<Longrightarrow> p \<noteq> n \<Longrightarrow> predecessorIds edges n \<noteq> []"
proof -
  assume "p \<in> set (directPredecessors nodes edges n)" "p \<noteq> n"
  then have "p \<in> set (predecessorIds edges n)"
    using directPredecessors_found[of p nodes edges n] by (simp add: predecessorIds_def)
  then show ?thesis by auto
qed

lemma available_third_branch:
  "predecessorIds edges n \<noteq> [] \<Longrightarrow>
   getAvailableDataForNode state nodes edges n =
     JObj [(''session'', JObj (session state)),
           (''source'', buildSource (nodeOutputs state) (directPredecessors nodes edges n)),
           (''node_outputs'', JObj (collectOutputs (nodeOutputs state) (predecessorIds edges n)))]"
  by (simp add: getAvailableDataForNode_def Let_def)


lemma buildSource_unrecorded:
  assumes "\<forall>p \<in> set dps. map_of outs p = None"
  shows "buildSource outs dps = JObj []"
proof (cases "length dps = 1")
  case True
  then have "dps ! 0 \<in> set dps" by (intro nth_mem) simp
  then have "map_of outs (dps ! 0) = None" using assms by blast
  then show ?thesis using True by (simp add: buildSource_def)
next
  case False
  then show ?thesis using collectOutputs_empty[OF assms] by (simp add: buildSource_def)
qed

lemma id_keys:
  "\<not> key_precedes ''A'' k" "\<not> key_precedes ''B'' k" "\<not> key_precedes ''message'' k"
  "\<not> key_precedes ''answer'' k" "\<not> key_precedes ''session.direct_input'' k"
  by (simp_all add: key_precedes_def is_array_index_def is_digit_def)











text \<open>
  C7 as stated: a node without transitive predecessors gets \<^verbatim>\<open>null\<close> (or the session, for
  a chat input), and a node with transitive predecessors of which none has a recorded
  result gets the object with an empty \<^verbatim>\<open>source\<close> and an empty \<^verbatim>\<open>node_outputs\<close>, never
  \<^verbatim>\<open>null\<close>. It fails on a node with an edge to itself, whether or not the node counts among
  its own predecessors. In the graph \<open>A \<rightarrow> B\<close>, \<open>B \<rightarrow> B\<close> where only \<open>B\<close> has a recorded
  output, the one predecessor that the function finds for \<open>B\<close> is \<open>A\<close>, without a recorded
  output, and yet \<^verbatim>\<open>source\<close> holds the output of \<open>B\<close>. In the graph of the single edge
  \<open>B \<rightarrow> B\<close> the node \<open>B\<close> is reached backward from itself and nothing is recorded, and yet
  the result is \<^verbatim>\<open>null\<close>.
\<close>

theorem available_self_loop_counterexample:
  "getAvailableDataForNode
     \<lparr>session = [], source = [(''answer'', JStr ''ok'')],
      nodeOutputs =
        [(''B'', \<lparr>status = StatusSuccess, output = [(''answer'', JStr ''ok'')], timestamp = 1,
                  nodeType = ''llmModelNode'', nodeName = ''B''\<rparr>)],
      lastExecutionId = None, lastExecutionTime = None\<rparr>
     [\<lparr>node_id = ''A'', node_type = Some ''llmModelNode''\<rparr>,
      \<lparr>node_id = ''B'', node_type = Some ''llmModelNode''\<rparr>]
     [\<lparr>edge_source = ''A'', edge_target = ''B''\<rparr>, \<lparr>edge_source = ''B'', edge_target = ''B''\<rparr>] ''B''
   = JObj [(''session'', JObj []),
           (''source'', JObj [(''B'', JObj [(''answer'', JStr ''ok'')])]),
           (''node_outputs'', JObj [])] \<and>
   predecessorIds [\<lparr>edge_source = ''A'', edge_target = ''B''\<rparr>, \<lparr>edge_source = ''B'', edge_target = ''B''\<rparr>] ''B'' = [''A''] \<and>
   map_of (nodeOutputs
     \<lparr>session = [], source = [(''answer'', JStr ''ok'')],
      nodeOutputs =
        [(''B'', \<lparr>status = StatusSuccess, output = [(''answer'', JStr ''ok'')], timestamp = 1,
                  nodeType = ''llmModelNode'', nodeName = ''B''\<rparr>)],
      lastExecutionId = None, lastExecutionTime = None\<rparr>) ''A'' = None \<and>
   getAvailableDataForNode initialState [\<lparr>node_id = ''B'', node_type = Some ''llmModelNode''\<rparr>] [\<lparr>edge_source = ''B'', edge_target = ''B''\<rparr>] ''B'' = JNull \<and>
   findPredecessors [\<lparr>edge_source = ''B'', edge_target = ''B''\<rparr>] ''B'' = [''B''] \<and>
   (''B'', ''B'') \<in> edge_rel [\<lparr>edge_source = ''B'', edge_target = ''B''\<rparr>]"
  by (simp add: getAvailableDataForNode_def predecessorIds_def findPredecessors_def set_add_def
      directPredecessors_def getNodeById_def collectOutputs_def buildSource_def Let_def
      edge_rel_def id_keys initialState_def)

text \<open>
  C7, amended. The transitive predecessors of a node are the other nodes from which it is
  reached backward along one or more edges: the node itself is never one of them, even on
  a cycle. A node without such a predecessor gets \<^verbatim>\<open>null\<close> when it is not a chat input (or
  is not in the node list) and the \<open>session\<close> of the store itself when it is one. A node
  with such predecessors, none of which has a recorded result, gets the object with the
  session, a \<^verbatim>\<open>source\<close> and an empty \<^verbatim>\<open>node_outputs\<close>, never \<^verbatim>\<open>null\<close>; its \<^verbatim>\<open>source\<close> is
  empty too when the node has no edge to itself or no recorded result of its own.
\<close>

theorem available_null_session_or_shape:
  "(predecessorIds edges n = [] \<and>
      \<not> (\<exists>nd. getNodeById nodes n = Some nd \<and> node_type nd = Some ''chatInputNode'')
      \<longrightarrow> getAvailableDataForNode state nodes edges n = JNull) \<and>
   (predecessorIds edges n = [] \<and>
      (\<exists>nd. getNodeById nodes n = Some nd \<and> node_type nd = Some ''chatInputNode'')
      \<longrightarrow> getAvailableDataForNode state nodes edges n = JObj (session state)) \<and>
   (predecessorIds edges n \<noteq> [] \<and>
      (\<forall>p \<in> set (predecessorIds edges n). map_of (nodeOutputs state) p = None)
      \<longrightarrow> (\<exists>src. getAvailableDataForNode state nodes edges n =
                   JObj [(''session'', JObj (session state)), (''source'', src),
                         (''node_outputs'', JObj [])]) \<and>
          getAvailableDataForNode state nodes edges n \<noteq> JNull) \<and>
   (predecessorIds edges n \<noteq> [] \<and>
      (\<forall>p \<in> set (predecessorIds edges n). map_of (nodeOutputs state) p = None) \<and>
      ((n, n) \<notin> edge_rel edges \<or> map_of (nodeOutputs state) n = None)
      \<longrightarrow> getAvailableDataForNode state nodes edges n =
            JObj [(''session'', JObj (session state)), (''source'', JObj []),
                  (''node_outputs'', JObj [])]) \<and>
   set (predecessorIds edges n) = {s. s \<noteq> n \<and> (s, n) \<in> (edge_rel edges)\<^sup>+}"
proof (intro conjI impI)
  assume "predecessorIds edges n = [] \<and>
      \<not> (\<exists>nd. getNodeById nodes n = Some nd \<and> node_type nd = Some ''chatInputNode'')"
  then show "getAvailableDataForNode state nodes edges n = JNull"
    by (cases "getNodeById nodes n") (simp_all add: getAvailableDataForNode_def Let_def)
next
  assume "predecessorIds edges n = [] \<and>
      (\<exists>nd. getNodeById nodes n = Some nd \<and> node_type nd = Some ''chatInputNode'')"
  then show "getAvailableDataForNode state nodes edges n = JObj (session state)"
    by (cases "getNodeById nodes n") (auto simp add: getAvailableDataForNode_def Let_def)
next
  assume h: "predecessorIds edges n \<noteq> [] \<and>
      (\<forall>p \<in> set (predecessorIds edges n). map_of (nodeOutputs state) p = None)"
  have a: "\<forall>p \<in> set (predecessorIds edges n). map_of (nodeOutputs state) p = None"
    using h by simp
  have r: "getAvailableDataForNode state nodes edges n =
            JObj [(''session'', JObj (session state)),
                  (''source'', buildSource (nodeOutputs state) (directPredecessors nodes edges n)),
                  (''node_outputs'', JObj [])]"
    using h by (simp add: available_third_branch collectOutputs_empty[OF a])
  then show "\<exists>src. getAvailableDataForNode state nodes edges n =
                   JObj [(''session'', JObj (session state)), (''source'', src),
                         (''node_outputs'', JObj [])]"
    by blast
  show "getAvailableDataForNode state nodes edges n \<noteq> JNull"
    unfolding r by simp
next
  assume h: "predecessorIds edges n \<noteq> [] \<and>
      (\<forall>p \<in> set (predecessorIds edges n). map_of (nodeOutputs state) p = None) \<and>
      ((n, n) \<notin> edge_rel edges \<or> map_of (nodeOutputs state) n = None)"
  have a: "\<forall>p \<in> set (predecessorIds edges n). map_of (nodeOutputs state) p = None"
    using h by simp
  have b: "\<forall>p \<in> set (directPredecessors nodes edges n). map_of (nodeOutputs state) p = None"
  proof
    fix p assume p: "p \<in> set (directPredecessors nodes edges n)"
    show "map_of (nodeOutputs state) p = None"
    proof (cases "p = n")
      case True
      then have "(n, n) \<in> edge_rel edges" using directPredecessors_edges[OF p] by simp
      then show ?thesis using h True by simp
    next
      case False
      then have "p \<in> set (predecessorIds edges n)"
        using directPredecessors_found[OF p] by (simp add: predecessorIds_def)
      then show ?thesis using a by simp
    qed
  qed
  show "getAvailableDataForNode state nodes edges n =
            JObj [(''session'', JObj (session state)), (''source'', JObj []),
                  (''node_outputs'', JObj [])]"
    using h by (simp add: available_third_branch collectOutputs_empty[OF a] buildSource_unrecorded[OF b])
next
  show "set (predecessorIds edges n) = {s. s \<noteq> n \<and> (s, n) \<in> (edge_rel edges)\<^sup>+}"
    by (rule predecessorIds_set)
qed

text \<open>A model node without edges; a chat input without edges; the node \<open>B\<close> of \<open>A \<rightarrow> B\<close>
  in the initial store.\<close>

theorem available_null_session_or_shape_witness:
  "getAvailableDataForNode
     \<lparr>session = [(''message'', JStr ''hi'')],
      source = [(''answer'', JStr ''ok''), (''session.direct_input'', JStr ''hi'')],
      nodeOutputs =
        [(''A'', \<lparr>status = StatusSuccess, output = [(''message'', JStr ''hi'')], timestamp = 1,
                  nodeType = ''chatInputNode'', nodeName = ''A''\<rparr>),
         (''B'', \<lparr>status = StatusSuccess,
                  output = [(''answer'', JStr ''ok''), (''session.direct_input'', JStr ''hi'')],
                  timestamp = 2, nodeType = ''llmModelNode'', nodeName = ''B''\<rparr>)],
      lastExecutionId = None, lastExecutionTime = None\<rparr>
     [\<lparr>node_id = ''B'', node_type = Some ''llmModelNode''\<rparr>] [] ''B'' = JNull \<and>
   getAvailableDataForNode
     \<lparr>session = [(''message'', JStr ''hi'')],
      source = [(''answer'', JStr ''ok''), (''session.direct_input'', JStr ''hi'')],
      nodeOutputs =
        [(''A'', \<lparr>status = StatusSuccess, output = [(''message'', JStr ''hi'')], timestamp = 1,
                  nodeType = ''chatInputNode'', nodeName = ''A''\<rparr>),
         (''B'', \<lparr>status = StatusSuccess,
                  output = [(''answer'', JStr ''ok''), (''session.direct_input'', JStr ''hi'')],
                  timestamp = 2, nodeType = ''llmModelNode'', nodeName = ''B''\<rparr>)],
      lastExecutionId = None, lastExecutionTime = None\<rparr>
     [\<lparr>node_id = ''A'', node_type = Some ''chatInputNode''\<rparr>] [] ''A''
     = JObj [(''message'', JStr ''hi'')] \<and>
   predecessorIds [\<lparr>edge_source = ''A'', edge_target = ''B''\<rparr>] ''B'' = [''A''] \<and>
   (''B'', ''B'') \<notin> edge_rel [\<lparr>edge_source = ''A'', edge_target = ''B''\<rparr>] \<and>
   getAvailableDataForNode initialState
     [\<lparr>node_id = ''A'', node_type = Some ''chatInputNode''\<rparr>,
      \<lparr>node_id = ''B'', node_type = Some ''llmModelNode''\<rparr>]
     [\<lparr>edge_source = ''A'', edge_target = ''B''\<rparr>] ''B''
     = JObj [(''session'', JObj []), (''source'', JObj []), (''node_outputs'', JObj [])]"
  using available_null_session_or_shape
    [where edges = "[]" and n = "''B''"
       and nodes = "[\<lparr>node_id = ''B'', node_type = Some ''llmModelNode''\<rparr>]"
       and state = "\<lparr>session = [(''message'', JStr ''hi'')],
      source = [(''answer'', JStr ''ok''), (''session.direct_input'', JStr ''hi'')],
      nodeOutputs =
        [(''A'', \<lparr>status = StatusSuccess, output = [(''message'', JStr ''hi'')], timestamp = 1,
                  nodeType = ''chatInputNode'', nodeName = ''A''\<rparr>),
         (''B'', \<lparr>status = StatusSuccess,
                  output = [(''answer'', JStr ''ok''), (''session.direct_input'', JStr ''hi'')],
                  timestamp = 2, nodeType = ''llmModelNode'', nodeName = ''B''\<rparr>)],
      lastExecutionId = None, lastExecutionTime = None\<rparr>"]
    available_null_session_or_shape
    [where edges = "[]" and n = "''A''"
       and nodes = "[\<lparr>node_id = ''A'', node_type = Some ''chatInputNode''\<rparr>]"
       and state = "\<lparr>session = [(''message'', JStr ''hi'')],
      source = [(''answer'', JStr ''ok''), (''session.direct_input'', JStr ''hi'')],
      nodeOutputs =
        [(''A'', \<lparr>status = StatusSuccess, output = [(''message'', JStr ''hi'')], timestamp = 1,
                  nodeType = ''chatInputNode'', nodeName = ''A''\<rparr>),
         (''B'', \<lparr>status = StatusSuccess,
                  output = [(''answer'', JStr ''ok''), (''session.direct_input'', JStr ''hi'')],
                  timestamp = 2, nodeType = ''llmModelNode'', nodeName = ''B''\<rparr>)],
      lastExecutionId = None, lastExecutionTime = None\<rparr>"]
    available_null_session_or_shape
    [where edges = "[\<lparr>edge_source = ''A'', edge_target = ''B''\<rparr>]" and n = "''B''"
       and nodes = "[\<lparr>node_id = ''A'', node_type = Some ''chatInputNode''\<rparr>,
      \<lparr>node_id = ''B'', node_type = Some ''llmModelNode''\<rparr>]"
       and state = initialState]
  by (simp add: getAvailableDataForNode_def predecessorIds_def findPredecessors_def set_add_def
      directPredecessors_def getNodeById_def collectOutputs_def buildSource_def Let_def
      edge_rel_def id_keys initialState_def)



end
